theory Spec2Isabelle
  imports
    Complex_Main
    "HOL-Library.Char_ord"
    "HOL-Library.List_Lexorder"
    "HOL-Library.Product_Lexorder"
begin

section \<open>Python values used by the pipeline\<close>

text \<open>
  Exceptions of the Python run time that the modelled functions can raise. A function
  that can raise returns \<open>error + 'a\<close>, with \<open>Inl\<close> for the exception.
  \<open>EmptyImageError\<close> stands for the exception with which Pillow refuses to cut out or
  write an image that has no pixels (its class depends on the Pillow version).
\<close>

datatype error = ZeroDivisionError | TypeError | AttributeError | EmptyImageError

text \<open>
  \<open>range(n)\<close> for a Python int \<open>n\<close>: the integers \<open>0, ..., n-1\<close>, empty when
  \<open>n \<le> 0\<close>.
\<close>

definition py_range :: "int \<Rightarrow> int list" where
  "py_range n = map int [0..<nat n]"

text \<open>
  A loop whose body can raise: the results of the bodies in order, up to the first
  exception, which leaves the loop.
\<close>

fun collect :: "(error + 'a) list \<Rightarrow> error + 'a list" where
  "collect [] = Inr []"
| "collect (Inl e # rest) = Inl e"
| "collect (Inr v # rest) = (case collect rest of Inl e \<Rightarrow> Inl e | Inr vs \<Rightarrow> Inr (v # vs))"

subsection \<open>Strings\<close>

text \<open>
  Strings are modelled over ASCII: \<open>str.lower\<close> and \<open>str.upper\<close> change the 26 Latin
  letters and nothing else, and comparison of strings (used by \<open>sorted\<close>) is the
  lexicographic order of the character codes, as in Python.
\<close>

definition char_lower :: "char \<Rightarrow> char" where
  "char_lower c =
     (case map_of (zip ''ABCDEFGHIJKLMNOPQRSTUVWXYZ'' ''abcdefghijklmnopqrstuvwxyz'') c of
        Some d \<Rightarrow> d | None \<Rightarrow> c)"

definition char_upper :: "char \<Rightarrow> char" where
  "char_upper c =
     (case map_of (zip ''abcdefghijklmnopqrstuvwxyz'' ''ABCDEFGHIJKLMNOPQRSTUVWXYZ'') c of
        Some d \<Rightarrow> d | None \<Rightarrow> c)"

definition py_lower :: "string \<Rightarrow> string" where
  "py_lower s = map char_lower s"

definition py_upper :: "string \<Rightarrow> string" where
  "py_upper s = map char_upper s"

text \<open>
  \<open>str.strip()\<close> removes leading and trailing whitespace; the ASCII characters for
  which \<open>str.isspace\<close> holds are the codes 9 to 13, 28 to 31 and 32.
\<close>

definition is_space :: "char \<Rightarrow> bool" where
  "is_space c = (let n = (of_char c :: nat) in (9 \<le> n \<and> n \<le> 13) \<or> (28 \<le> n \<and> n \<le> 32))"

definition py_strip :: "string \<Rightarrow> string" where
  "py_strip s = rev (dropWhile is_space (rev (dropWhile is_space s)))"

text \<open>\<open>s.startswith(p)\<close> and the substring test \<open>p in s\<close>.\<close>

fun starts_with :: "string \<Rightarrow> string \<Rightarrow> bool" where
  "starts_with s [] = True"
| "starts_with [] (p # ps) = False"
| "starts_with (c # cs) (p # ps) = (c = p \<and> starts_with cs ps)"

fun is_substring :: "string \<Rightarrow> string \<Rightarrow> bool" where
  "is_substring p [] = (p = [])"
| "is_substring p (c # cs) = (starts_with (c # cs) p \<or> is_substring p cs)"

text \<open>\<open>sep.join(parts)\<close>.\<close>

fun py_join :: "string \<Rightarrow> string list \<Rightarrow> string" where
  "py_join sep [] = []"
| "py_join sep [p] = p"
| "py_join sep (p # q # ps) = p @ sep @ py_join sep (q # ps)"

text \<open>
  \<open>sorted(xs, key=k, reverse=True)\<close>: Python's sort is stable, and with
  \<open>reverse=True\<close> elements with equal keys keep their original order; that is the
  stable ascending sort of the reversed list, reversed.
\<close>

definition py_sorted_reverse :: "('a \<Rightarrow> 'k::linorder) \<Rightarrow> 'a list \<Rightarrow> 'a list" where
  "py_sorted_reverse k xs = rev (sort_key k (rev xs))"

text \<open>
  \<open>collections.Counter(xs)\<close> as the list of its items in insertion order: each key once,
  in the order of first occurrence, with the number of its occurrences.
\<close>

fun counter_add :: "'a \<Rightarrow> ('a \<times> nat) list \<Rightarrow> ('a \<times> nat) list" where
  "counter_add k [] = [(k, 1)]"
| "counter_add k ((k', n) # rest) =
     (if k = k' then (k', n + 1) # rest else (k', n) # counter_add k rest)"

definition Counter :: "'a list \<Rightarrow> ('a \<times> nat) list" where
  "Counter xs = foldl (\<lambda>m k. counter_add k m) [] xs"

subsection \<open>Regular expressions\<close>

text \<open>
  The patterns the pipeline is configured with, as the syntax tree that \<open>re\<close> compiles
  a pattern string to. \<open>re.match(p, s)\<close> succeeds when some prefix of \<open>s\<close> is in the
  language of \<open>p\<close>: it is anchored at the start of \<open>s\<close> only. The matcher follows
  the derivatives of the pattern along the string.
\<close>

datatype regex =
    Null
  | Eps
  | Lit char
  | Range char char
  | Seq regex regex
  | Alt regex regex
  | Star regex

fun nullable :: "regex \<Rightarrow> bool" where
  "nullable Null = False"
| "nullable Eps = True"
| "nullable (Lit c) = False"
| "nullable (Range lo hi) = False"
| "nullable (Seq r s) = (nullable r \<and> nullable s)"
| "nullable (Alt r s) = (nullable r \<or> nullable s)"
| "nullable (Star r) = True"

fun deriv :: "char \<Rightarrow> regex \<Rightarrow> regex" where
  "deriv c Null = Null"
| "deriv c Eps = Null"
| "deriv c (Lit d) = (if c = d then Eps else Null)"
| "deriv c (Range lo hi) = (if lo \<le> c \<and> c \<le> hi then Eps else Null)"
| "deriv c (Seq r s) =
     (if nullable r then Alt (Seq (deriv c r) s) (deriv c s) else Seq (deriv c r) s)"
| "deriv c (Alt r s) = Alt (deriv c r) (deriv c s)"
| "deriv c (Star r) = Seq (deriv c r) (Star r)"

fun re_match :: "regex \<Rightarrow> string \<Rightarrow> bool" where
  "re_match r [] = nullable r"
| "re_match r (c # cs) = (nullable r \<or> re_match (deriv c r) cs)"

text \<open>The pattern \<open>LT\d{2,3}[A-Z]?\<close>, the default \<open>label_pattern\<close> of config.py.\<close>

definition re_digit :: regex where
  "re_digit = Range (CHR ''0'') (CHR ''9'')"

definition re_optional :: "regex \<Rightarrow> regex" where
  "re_optional r = Alt r Eps"

definition default_label_pattern :: regex where
  "default_label_pattern =
     Seq (Lit (CHR ''L'')) (Seq (Lit (CHR ''T''))
       (Seq re_digit (Seq re_digit (Seq (re_optional re_digit)
          (re_optional (Range (CHR ''A'') (CHR ''Z'')))))))"

section \<open>Data model (pipeline/models.py, pipeline/config.py)\<close>

text \<open>
  \<open>PipelineConfig\<close>: the options the modelled functions read, with the defaults of
  config.py.
\<close>

record PipelineConfig =
  coarse_grid_cols :: int
  coarse_grid_rows :: int
  max_agent_iterations :: int
  max_vlm_calls_phase3 :: int
  dedup_radius_px :: int
  label_pattern :: regex
  label_prefix :: string

definition default_config :: PipelineConfig where
  "default_config =
     \<lparr>coarse_grid_cols = 4, coarse_grid_rows = 3, max_agent_iterations = 20,
      max_vlm_calls_phase3 = 15, dedup_radius_px = 50,
      label_pattern = default_label_pattern, label_prefix = ''LT''\<rparr>"

text \<open>
  \<open>Detection\<close>, with the field types the dataclass declares. \<open>confidence\<close> is a
  string: any text can stand there, and only HIGH, MEDIUM and LOW have a rank. The field
  \<open>notes\<close> is written \<open>notes'\<close>, \<open>notes\<close> being a keyword of Isabelle.
\<close>

record Detection =
  label :: string
  variant :: "string option"
  circuit :: "string option"
  room :: "string option"
  x :: int
  y :: int
  confidence :: string
  on_boundary :: bool
  source_cell :: "(int \<times> int) option"
  source_phase :: int
  notes' :: string

text \<open>
  \<open>DrawingContext\<close> as \<open>synthesize\<close> reads it: \<open>suites\<close> is a list of dicts from
  strings to strings, a dict being the list of its items. The other fields of the
  dataclass are not read by any function modelled over this record.
\<close>

record DrawingContext =
  sheet_title :: "string option"
  suites :: "(string \<times> string) list list"
  fixture_types_visible :: "string list"

text \<open>
  \<open>CellInfo\<close> and \<open>GridResult\<close>. The field \<open>path\<close> of a cell (the name of the PNG
  file the crop is saved to) is left out: it belongs to the file system, and no pixel
  bound depends on it.
\<close>

record CellInfo =
  row :: int
  col :: int
  x0 :: int
  y0 :: int
  x1 :: int
  y1 :: int

record GridResult =
  cells :: "CellInfo list"
  plan_width :: int
  plan_height :: int
  cell_width :: int
  cell_height :: int
  cols :: int
  rows :: int

text \<open>
  The input dict of a tool call, with the keys the tool schemas of tools.py name and the
  value types they declare; a field is \<open>None\<close> when the key is absent. Percentages are
  JSON numbers, modelled as rationals.
\<close>

record ToolInput =
  in_x_pct :: "rat option"
  in_y_pct :: "rat option"
  in_width_pct :: "rat option"
  in_height_pct :: "rat option"
  in_reason :: "string option"
  in_pattern_type :: "string option"
  in_summary :: "string option"

text \<open>
  The entries of the agent log: \<open>{"iteration": i, "tool": name, "input": input}\<close> and
  \<open>{"finalize": summary}\<close>.
\<close>

datatype log_entry = ToolCall int string ToolInput | Finalized string

text \<open>
  The fields of an \<open>AgentOrchestrator\<close> that \<open>run\<close> changes: the running detection
  list, the call counter and the log.
\<close>

record AgentOrchestrator =
  detections :: "Detection list"
  vlm_calls :: int
  agent_log :: "log_entry list"

text \<open>
  \<open>PhaseResult\<close>, with the type of \<open>metadata\<close> left open (each phase stores a dict
  of its own shape). \<open>duration_s\<close>, a difference of two clock readings, is left out.
\<close>

record 'm PhaseResult =
  phase :: int
  detections :: "Detection list"
  vlm_calls :: int
  metadata :: 'm
  error :: "string option"

text \<open>
  \<open>SynthesisReport\<close>. \<open>final_counts\<close> is a dict, which keeps its items in insertion
  order: the list of its items.
\<close>

record SynthesisReport =
  final_counts :: "(string \<times> nat) list"
  total :: nat
  detections :: "Detection list"
  duplicates_removed :: nat
  pattern_warnings :: "string list"

section \<open>Grid decomposition (pipeline/grid.py)\<close>

text \<open>
  \<open>decompose(plan_img, cfg)\<close>, with \<open>plan_img.size = (W, H)\<close>. The
  floor divisions \<open>W // cols\<close> and \<open>H // rows\<close> raise ZeroDivisionError on a zero
  divisor; HOL's \<open>div\<close> on \<open>int\<close> is Python's floor division otherwise. The two
  nested \<open>for\<close> loops append the cells row by row.

  The body of the inner loop computes the bounds of the cell, cuts the cell out of the
  page with \<open>plan_img.crop((x0, y0, x1, y1))\<close> and writes it with \<open>cell_img.save\<close>
  before the \<open>CellInfo\<close> is appended. A box with no pixels (\<open>x1 \<le> x0\<close> or
  \<open>y1 \<le> y0\<close>) cannot be cut out and written: the call raises, and \<open>decompose\<close>
  returns no grid. Of the file system nothing else is modelled.
\<close>

definition make_cell :: "int \<Rightarrow> int \<Rightarrow> int \<Rightarrow> int \<Rightarrow> int \<Rightarrow> int \<Rightarrow> CellInfo" where
  "make_cell W H cw ch r c =
     (let cx0 = c * cw;
          cy0 = r * ch;
          cx1 = min (cx0 + cw) W;
          cy1 = min (cy0 + ch) H
      in \<lparr>row = r, col = c, x0 = cx0, y0 = cy0, x1 = cx1, y1 = cy1\<rparr>)"

definition crop_and_save :: "CellInfo \<Rightarrow> error + CellInfo" where
  "crop_and_save cell =
     (if x1 cell \<le> x0 cell \<or> y1 cell \<le> y0 cell then Inl EmptyImageError else Inr cell)"

fun decompose :: "int \<times> int \<Rightarrow> PipelineConfig \<Rightarrow> error + GridResult" where
  "decompose (W, H) cfg =
     (let ncols = coarse_grid_cols cfg;
          nrows = coarse_grid_rows cfg
      in
      if ncols = 0 then Inl ZeroDivisionError
      else if nrows = 0 then Inl ZeroDivisionError
      else
        (let cw = W div ncols;
             ch = H div nrows
         in case collect
                   (concat (map (\<lambda>r. map (\<lambda>c. crop_and_save (make_cell W H cw ch r c))
                                          (py_range ncols))
                                (py_range nrows)))
            of
              Inl e \<Rightarrow> Inl e
            | Inr cs \<Rightarrow>
                Inr \<lparr>cells = cs, plan_width = W, plan_height = H,
                     cell_width = cw, cell_height = ch, cols = ncols, rows = nrows\<rparr>))"

text \<open>
  The pixels of a cell: the half-open rectangle \<open>[x0, x1) \<times> [y0, y1)\<close> that
  \<open>plan_img.crop((x0, y0, x1, y1))\<close> cuts out.
\<close>

definition in_cell :: "CellInfo \<Rightarrow> int \<Rightarrow> int \<Rightarrow> bool" where
  "in_cell c px py = (x0 c \<le> px \<and> px < x1 c \<and> y0 c \<le> py \<and> py < y1 c)"

definition covered :: "GridResult \<Rightarrow> int \<Rightarrow> int \<Rightarrow> bool" where
  "covered g px py = list_ex (\<lambda>c. in_cell c px py) (cells g)"

section \<open>Phase 4: synthesis (pipeline/synthesize.py)\<close>

definition CONF_RANK :: "(string \<times> int) list" where
  "CONF_RANK = [(''HIGH'', 3), (''MEDIUM'', 2), (''LOW'', 1)]"

text \<open>\<open>CONF_RANK.get(confidence, 0)\<close>.\<close>

definition conf_rank :: "string \<Rightarrow> int" where
  "conf_rank c = (case map_of CONF_RANK c of Some r \<Rightarrow> r | None \<Rightarrow> 0)"

text \<open>The sort key \<open>(CONF_RANK.get(d.confidence, 0), d.source_phase)\<close>; tuples compare
  lexicographically.\<close>

definition dedup_key :: "Detection \<Rightarrow> int \<times> int" where
  "dedup_key d = (conf_rank (confidence d), source_phase d)"

text \<open>The test of the inner loop: same label, and both coordinates closer than the radius.\<close>

definition is_close :: "int \<Rightarrow> Detection \<Rightarrow> Detection \<Rightarrow> bool" where
  "is_close radius existing det =
     (label existing = label det
      \<and> \<bar>x existing - x det\<bar> < radius
      \<and> \<bar>y existing - y det\<bar> < radius)"

text \<open>The inner \<open>for existing in kept\<close> loop, which sets \<open>is_dup\<close> and breaks at the first hit.\<close>

definition is_dup :: "int \<Rightarrow> Detection list \<Rightarrow> Detection \<Rightarrow> bool" where
  "is_dup radius kept det = list_ex (\<lambda>existing. is_close radius existing det) kept"

text \<open>The outer loop over \<open>sorted_dets\<close>, carrying \<open>kept\<close> and \<open>duplicates\<close>.\<close>

fun dedup_loop :: "int \<Rightarrow> Detection list \<Rightarrow> Detection list \<Rightarrow> nat \<Rightarrow> Detection list \<times> nat" where
  "dedup_loop radius [] kept duplicates = (kept, duplicates)"
| "dedup_loop radius (det # rest) kept duplicates =
     (if is_dup radius kept det
      then dedup_loop radius rest kept (duplicates + 1)
      else dedup_loop radius rest (kept @ [det]) duplicates)"

text \<open>
  A Python \<open>set\<close> of strings is modelled as a list without repetitions. The order in
  which a set is iterated depends on the hashes of its elements, and string hashes are
  salted per process: the order is the parameter \<open>order\<close>, a function that rearranges
  the elements of a set.

  \<open>_check_suite_coverage\<close>: the set comprehension over \<open>context.suites\<close> keeps the
  truthy values of \<open>s.get("number")\<close>; \<open>d.room or ""\<close> is the empty string for a
  missing or empty room.
\<close>

definition suite_number_values :: "DrawingContext \<Rightarrow> string list" where
  "suite_number_values context =
     concat (map
       (\<lambda>s. case map_of s ''number'' of
               None \<Rightarrow> []
             | Some n \<Rightarrow> if n = [] then [] else [n])
       (suites context))"

definition suite_numbers_of :: "(string list \<Rightarrow> string list) \<Rightarrow> DrawingContext \<Rightarrow> string list" where
  "suite_numbers_of order context = order (remdups (suite_number_values context))"

definition room_text :: "Detection \<Rightarrow> string" where
  "room_text d = py_lower (case room d of None \<Rightarrow> [] | Some r \<Rightarrow> r)"

definition detected_suites_of :: "string list \<Rightarrow> Detection list \<Rightarrow> string list" where
  "detected_suites_of suite_numbers dets =
     foldl (\<lambda>acc d.
              foldl (\<lambda>acc sn. if is_substring (py_lower sn) (room_text d)
                               then List.insert sn acc else acc)
                    acc suite_numbers)
           [] dets"

definition coverage_message :: "string \<Rightarrow> string list \<Rightarrow> string" where
  "coverage_message prefix missing =
     ''No '' @ prefix @ '' fixtures detected in suites: '' @ py_join '', '' (sort missing)
     @ ''. This may indicate missed detections.''"

definition check_suite_coverage ::
  "(string list \<Rightarrow> string list) \<Rightarrow> Detection list \<Rightarrow> DrawingContext \<Rightarrow> PipelineConfig \<Rightarrow> string list" where
  "check_suite_coverage order dets context cfg =
     (let suite_numbers = suite_numbers_of order context;
          prefix = label_prefix cfg;
          detected_suites = detected_suites_of suite_numbers dets;
          missing = order (filter (\<lambda>sn. sn \<notin> set detected_suites) suite_numbers)
      in if missing \<noteq> [] then [coverage_message prefix missing] else [])"

text \<open>
  \<open>synthesize(detections, cfg, context)\<close>. An empty input returns the default
  \<open>SynthesisReport()\<close> before anything else is looked at.
\<close>

definition empty_report :: SynthesisReport where
  "empty_report = \<lparr>final_counts = [], total = 0, detections = [],
                    duplicates_removed = 0, pattern_warnings = []\<rparr>"

definition synthesize ::
  "(string list \<Rightarrow> string list) \<Rightarrow> Detection list \<Rightarrow> PipelineConfig \<Rightarrow> DrawingContext option
     \<Rightarrow> SynthesisReport" where
  "synthesize order dets cfg context =
     (if dets = [] then empty_report
      else
        (let radius = dedup_radius_px cfg;
             sorted_dets = py_sorted_reverse dedup_key dets;
             (kept, duplicates) = dedup_loop radius sorted_dets [] 0;
             label_counts = Counter (map label kept);
             warnings =
               (case context of
                  None \<Rightarrow> []
                | Some ctx \<Rightarrow>
                    if suites ctx \<noteq> [] then check_suite_coverage order kept ctx cfg else [])
         in \<lparr>final_counts = sort label_counts,
             total = length kept,
             detections = kept,
             duplicates_removed = duplicates,
             pattern_warnings = warnings\<rparr>))"

text \<open>
  What can be said of the iteration order of a set: it lists the elements of the set, each
  once.
\<close>

definition is_set_order :: "(string list \<Rightarrow> string list) \<Rightarrow> bool" where
  "is_set_order order = (\<forall>xs. distinct xs \<longrightarrow> distinct (order xs) \<and> set (order xs) = set xs)"

text \<open>
  The suite numbers of the context for which no detection of the list has a room text
  that contains the number (both in lower case), in sorted order.
\<close>

definition uncovered_suites :: "DrawingContext \<Rightarrow> Detection list \<Rightarrow> string list" where
  "uncovered_suites context dets =
     sort (filter (\<lambda>n. \<not> list_ex (\<lambda>d. is_substring (py_lower n) (room_text d)) dets)
                  (remdups (suite_number_values context)))"

section \<open>Phase 2 and Phase 3 conversion of raw detections (pipeline/vlm.py, pipeline/agent.py)\<close>

text \<open>
  Numbers that reach the pipeline as JSON numbers (percentages, positions) are modelled as
  rationals, with exact arithmetic. \<open>int(v)\<close> truncates towards zero.
\<close>

definition py_int :: "rat \<Rightarrow> int" where
  "py_int q = (if 0 \<le> q then \<lfloor>q\<rfloor> else \<lceil>q\<rceil>)"

text \<open>
  A raw detection is one dict of the \<open>detections\<close> list in the model's JSON answer,
  taken with the value types the prompt asks for; a field is \<open>None\<close> when the key is
  absent. The value under \<open>position\<close> is a dict with optional \<open>x\<close> and \<open>y\<close>,
  or something that is not a dict.
\<close>

datatype raw_position = PositionDict "rat option" "rat option" | NotADict

record RawDetection =
  raw_label :: "string option"
  raw_circuit :: "string option"
  raw_room :: "string option"
  raw_position :: "raw_position option"
  raw_confidence :: "string option"
  raw_on_boundary :: "bool option"
  raw_notes :: "string option"

text \<open>\<open>d.get(key, default)\<close>.\<close>

definition get_or :: "'a option \<Rightarrow> 'a \<Rightarrow> 'a" where
  "get_or v dflt = (case v of None \<Rightarrow> dflt | Some a \<Rightarrow> a)"

text \<open>\<open>d.get("label", "").upper().strip()\<close>.\<close>

definition normalized_label :: "RawDetection \<Rightarrow> string" where
  "normalized_label d = py_strip (py_upper (get_or (raw_label d) ''''))"

text \<open>\<open>label[len(cfg.label_prefix):].lstrip("0123456789") or None\<close>.\<close>

definition is_digit :: "char \<Rightarrow> bool" where
  "is_digit c = (c \<in> set ''0123456789'')"

definition variant_of :: "string \<Rightarrow> string \<Rightarrow> string option" where
  "variant_of prefix lbl =
     (let v = dropWhile is_digit (drop (length prefix) lbl)
      in if v = [] then None else Some v)"

text \<open>
  The position of a Phase 2 detection on the page: the fraction of the cell the model
  reports (50 when a coordinate is absent), or the middle of the cell when the position is
  not a dict; a missing \<open>position\<close> key is the empty dict.
\<close>

definition cell_position :: "CellInfo \<Rightarrow> raw_position option \<Rightarrow> rat \<times> rat" where
  "cell_position cell pos =
     (case get_or pos (PositionDict None None) of
        PositionDict px py \<Rightarrow>
          (of_int (x0 cell) + (get_or px 50 / 100) * of_int (x1 cell - x0 cell),
           of_int (y0 cell) + (get_or py 50 / 100) * of_int (y1 cell - y0 cell))
      | NotADict \<Rightarrow>
          (of_int (x0 cell + x1 cell) / 2, of_int (y0 cell + y1 cell) / 2))"

text \<open>
  The loop of \<open>inspect_cell\<close> over \<open>data.get("detections", [])\<close>: a raw detection whose
  normalized label \<open>re.match\<close> rejects is skipped (\<open>continue\<close>), the others become
  detections of phase 2.
\<close>

definition cell_detection :: "PipelineConfig \<Rightarrow> CellInfo \<Rightarrow> RawDetection \<Rightarrow> Detection" where
  "cell_detection cfg cell d =
     (let lbl = normalized_label d;
          (px, py) = cell_position cell (raw_position d)
      in \<lparr>label = lbl,
          variant = variant_of (label_prefix cfg) lbl,
          circuit = raw_circuit d,
          room = raw_room d,
          x = py_int px, y = py_int py,
          confidence = get_or (raw_confidence d) ''MEDIUM'',
          on_boundary = get_or (raw_on_boundary d) False,
          source_cell = Some (col cell, row cell),
          source_phase = 2,
          notes' = get_or (raw_notes d) ''''\<rparr>)"

fun inspect_cell_convert :: "PipelineConfig \<Rightarrow> CellInfo \<Rightarrow> RawDetection list \<Rightarrow> Detection list" where
  "inspect_cell_convert cfg cell [] = []"
| "inspect_cell_convert cfg cell (d # ds) =
     (if \<not> re_match (label_pattern cfg) (normalized_label d)
      then inspect_cell_convert cfg cell ds
      else cell_detection cfg cell d # inspect_cell_convert cfg cell ds)"

text \<open>
  The loop of \<open>_tool_crop_and_inspect\<close> over the raw detections of a crop. Every
  detection gets the centre of the crop as its position, on the page rendered at the
  coarse DPI, whose size is \<open>(W, H)\<close>.
\<close>

definition crop_detection ::
  "PipelineConfig \<Rightarrow> int \<times> int \<Rightarrow> rat \<Rightarrow> rat \<Rightarrow> string \<Rightarrow> RawDetection \<Rightarrow> Detection" where
  "crop_detection cfg coarse_size x_pct y_pct reason d =
     (let lbl = normalized_label d
      in \<lparr>label = lbl,
          variant = variant_of (label_prefix cfg) lbl,
          circuit = raw_circuit d,
          room = raw_room d,
          x = py_int (x_pct / 100 * of_int (fst coarse_size)),
          y = py_int (y_pct / 100 * of_int (snd coarse_size)),
          confidence = get_or (raw_confidence d) ''MEDIUM'',
          on_boundary = False,
          source_cell = None,
          source_phase = 3,
          notes' = ''Refinement: '' @ reason\<rparr>)"

fun crop_convert ::
  "PipelineConfig \<Rightarrow> int \<times> int \<Rightarrow> rat \<Rightarrow> rat \<Rightarrow> string \<Rightarrow> RawDetection list \<Rightarrow> Detection list" where
  "crop_convert cfg coarse_size x_pct y_pct reason [] = []"
| "crop_convert cfg coarse_size x_pct y_pct reason (d # ds) =
     (if \<not> re_match (label_pattern cfg) (normalized_label d)
      then crop_convert cfg coarse_size x_pct y_pct reason ds
      else crop_detection cfg coarse_size x_pct y_pct reason d
           # crop_convert cfg coarse_size x_pct y_pct reason ds)"

section \<open>Crops of the page (pipeline/rasterize.py, pipeline/agent.py)\<close>

text \<open>
  The box \<open>(x1, y1, x2, y2)\<close> that \<open>PageRenderer.render_crop\<close> hands to
  \<open>img.crop\<close>, for a page image of size \<open>(W, H)\<close>.
\<close>

definition render_crop_box :: "int \<times> int \<Rightarrow> rat \<Rightarrow> rat \<Rightarrow> rat \<Rightarrow> rat \<Rightarrow> int \<times> int \<times> int \<times> int" where
  "render_crop_box img_size x_pct y_pct w_pct h_pct =
     (let W = fst img_size; H = snd img_size;
          cx = x_pct / 100 * of_int W;
          cy = y_pct / 100 * of_int H;
          cw = w_pct / 100 * of_int W;
          ch = h_pct / 100 * of_int H;
          bx1 = max 0 (py_int (cx - cw / 2));
          by1 = max 0 (py_int (cy - ch / 2));
          bx2 = min W (py_int (cx + cw / 2));
          by2 = min H (py_int (cy + ch / 2))
      in (bx1, by1, bx2, by2))"

text \<open>
  The first lines of \<open>_tool_crop_and_inspect\<close>: the region \<open>(x_pct, y_pct, w_pct,
  h_pct)\<close> that is rendered, and the box it is cut to on the page rendered at the
  refinement DPI.
\<close>

definition crop_region :: "ToolInput \<Rightarrow> rat \<times> rat \<times> rat \<times> rat" where
  "crop_region params =
     (let x_pct = get_or (in_x_pct params) 50;
          y_pct = get_or (in_y_pct params) 50;
          w_pct = min (get_or (in_width_pct params) 25) 50;
          h_pct = min (get_or (in_height_pct params) 25) 50
      in (x_pct, y_pct, w_pct, h_pct))"

definition crop_box :: "int \<times> int \<Rightarrow> ToolInput \<Rightarrow> int \<times> int \<times> int \<times> int" where
  "crop_box refine_size params =
     (case crop_region params of
        (x_pct, y_pct, w_pct, h_pct) \<Rightarrow> render_crop_box refine_size x_pct y_pct w_pct h_pct)"

section \<open>Phase 3: the agent loop (pipeline/agent.py)\<close>

text \<open>
  What the orchestrating model answers in one iteration: the call raises (any exception
  of \<open>client.messages.create\<close>), or it returns content blocks and a stop reason. A
  tool-use block carries its id, the tool's name and the input dict.
\<close>

datatype content_block = TextBlock string | ToolUseBlock string string ToolInput

datatype turn = ApiError string | Response "content_block list" string

text \<open>\<open>[b for b in response.content if b.type == "tool_use"]\<close>, as (id, name, input).\<close>

fun tool_uses_of :: "content_block list \<Rightarrow> (string \<times> string \<times> ToolInput) list" where
  "tool_uses_of [] = []"
| "tool_uses_of (TextBlock t # bs) = tool_uses_of bs"
| "tool_uses_of (ToolUseBlock i n inp # bs) = (i, n, inp) # tool_uses_of bs"

text \<open>
  The world around the loop: \<open>respond i\<close> is the orchestrating model's answer in
  iteration \<open>i\<close> (it may depend on everything sent so far, so any sequence of answers
  is possible); \<open>inspect k\<close> is the list of raw detections that \<open>inspect_crop\<close>
  returns when \<open>k\<close> inspections were made before (the empty list when its retries
  are exhausted); \<open>page_size\<close> is the size of the page rendered at the coarse DPI.
\<close>

record World =
  respond :: "nat \<Rightarrow> turn"
  inspect :: "nat \<Rightarrow> RawDetection list"
  page_size :: "int \<times> int"

text \<open>
  \<open>_tool_crop_and_inspect\<close>: one inspection, counted by \<open>self.vlm_calls += 1\<close>, and
  the conversion of its raw detections.
\<close>

definition tool_crop_and_inspect ::
  "World \<Rightarrow> PipelineConfig \<Rightarrow> ToolInput \<Rightarrow> AgentOrchestrator
     \<Rightarrow> AgentOrchestrator \<times> Detection list" where
  "tool_crop_and_inspect world cfg params self =
     (case crop_region params of
        (x_pct, y_pct, w_pct, h_pct) \<Rightarrow>
          (let reason = get_or (in_reason params) ''targeted re-inspection'';
               raw_dets = inspect world (nat (AgentOrchestrator.vlm_calls self));
               self' = self\<lparr>AgentOrchestrator.vlm_calls := AgentOrchestrator.vlm_calls self + 1\<rparr>
           in (self', crop_convert cfg (page_size world) x_pct y_pct reason raw_dets)))"

text \<open>
  \<open>_execute_tool\<close>. \<open>validate_pattern\<close>, \<open>get_current_state\<close> and an unknown tool
  only compute the result dict that is sent back to the model; they return no detections
  and change nothing.
\<close>

definition execute_tool ::
  "World \<Rightarrow> PipelineConfig \<Rightarrow> string \<Rightarrow> ToolInput \<Rightarrow> AgentOrchestrator
     \<Rightarrow> AgentOrchestrator \<times> Detection list" where
  "execute_tool world cfg tool_name tool_input self =
     (if tool_name = ''crop_and_inspect'' then tool_crop_and_inspect world cfg tool_input self
      else if tool_name = ''validate_pattern'' then (self, [])
      else if tool_name = ''get_current_state'' then (self, [])
      else (self, []))"

type_synonym agent_metadata = "(log_entry list \<times> string option) option"

text \<open>The \<open>PhaseResult\<close> that \<open>run\<close> returns after the loop, and on \<open>finalize\<close>.\<close>

definition phase3_result ::
  "Detection list \<Rightarrow> AgentOrchestrator \<Rightarrow> string option \<Rightarrow> string option
     \<Rightarrow> agent_metadata PhaseResult" where
  "phase3_result new_detections self summary err =
     PhaseResult.make 3 new_detections (AgentOrchestrator.vlm_calls self)
       (Some (agent_log self, summary)) err"

text \<open>
  The loop \<open>for tu in tool_uses\<close> of one iteration: \<open>Inl\<close> is the \<open>return phase\<close>
  of \<open>finalize\<close>, \<open>Inr\<close> the state and the new detections after the last tool.
\<close>

fun exec_tools ::
  "World \<Rightarrow> PipelineConfig \<Rightarrow> int \<Rightarrow> (string \<times> string \<times> ToolInput) list
     \<Rightarrow> AgentOrchestrator \<Rightarrow> Detection list
     \<Rightarrow> agent_metadata PhaseResult + AgentOrchestrator \<times> Detection list" where
  "exec_tools world cfg iteration [] self new_detections = Inr (self, new_detections)"
| "exec_tools world cfg iteration ((tu_id, tu_name, tu_input) # rest) self new_detections =
     (let logged = self\<lparr>agent_log := agent_log self @ [ToolCall iteration tu_name tu_input]\<rparr>
      in if tu_name = ''finalize'' then
           (let summary = get_or (in_summary tu_input) ''No summary'';
                final = logged\<lparr>agent_log := agent_log logged @ [Finalized summary]\<rparr>
            in Inl (phase3_result new_detections final (Some summary) None))
         else
           (case execute_tool world cfg tu_name tu_input logged of
              (self', dets) \<Rightarrow>
                exec_tools world cfg iteration rest
                  (self'\<lparr>AgentOrchestrator.detections := AgentOrchestrator.detections self' @ dets\<rparr>)
                  (new_detections @ dets)))"

text \<open>
  The loop \<open>for iteration in range(cfg.max_agent_iterations)\<close>, over the iterations
  still to run.
\<close>

fun run_loop ::
  "World \<Rightarrow> PipelineConfig \<Rightarrow> int list \<Rightarrow> AgentOrchestrator \<Rightarrow> Detection list
     \<Rightarrow> agent_metadata PhaseResult" where
  "run_loop world cfg [] self new_detections = phase3_result new_detections self None None"
| "run_loop world cfg (iteration # later) self new_detections =
     (let remaining = max_vlm_calls_phase3 cfg - AgentOrchestrator.vlm_calls self
      in if remaining \<le> 0 then phase3_result new_detections self None None
         else
           (case respond world (nat iteration) of
              ApiError e \<Rightarrow> phase3_result new_detections self None (Some e)
            | Response content stop_reason \<Rightarrow>
                (let tool_uses = tool_uses_of content
                 in if tool_uses = [] then
                      (if stop_reason = ''end_turn''
                       then phase3_result new_detections self None None
                       else run_loop world cfg later self new_detections)
                    else
                      (case exec_tools world cfg iteration tool_uses self new_detections of
                         Inl finalized \<Rightarrow> finalized
                       | Inr (self', new_detections') \<Rightarrow>
                           run_loop world cfg later self' new_detections'))))"

text \<open>
  \<open>AgentOrchestrator.run\<close>, on an orchestrator constructed with the Phase 2 detections:
  \<open>vlm_calls = 0\<close> and an empty log.
\<close>

definition new_orchestrator :: "Detection list \<Rightarrow> AgentOrchestrator" where
  "new_orchestrator coarse_detections =
     \<lparr>AgentOrchestrator.detections = coarse_detections, AgentOrchestrator.vlm_calls = 0,
      agent_log = []\<rparr>"

definition run :: "World \<Rightarrow> PipelineConfig \<Rightarrow> Detection list \<Rightarrow> agent_metadata PhaseResult" where
  "run world cfg coarse_detections =
     (if max_vlm_calls_phase3 cfg \<le> 0 then PhaseResult.make 3 [] 0 None None
      else run_loop world cfg (py_range (max_agent_iterations cfg))
             (new_orchestrator coarse_detections) [])"

section \<open>Phase 1: context extraction (pipeline/context.py)\<close>

text \<open>
  The values \<open>json.loads\<close> returns: \<open>None\<close>, booleans, numbers, strings, lists and
  dicts (a dict as the list of its items).
\<close>

datatype json =
    JNull
  | JBool bool
  | JNum rat
  | JStr string
  | JArr "json list"
  | JObj "(string \<times> json) list"

text \<open>The truth value of \<open>if data:\<close>.\<close>

fun truthy :: "json \<Rightarrow> bool" where
  "truthy JNull = False"
| "truthy (JBool b) = b"
| "truthy (JNum n) = (n \<noteq> 0)"
| "truthy (JStr s) = (s \<noteq> [])"
| "truthy (JArr xs) = (xs \<noteq> [])"
| "truthy (JObj kvs) = (kvs \<noteq> [])"

text \<open>\<open>len(v)\<close>: a TypeError for a value that has no length.\<close>

fun py_len :: "json \<Rightarrow> error + nat" where
  "py_len JNull = Inl TypeError"
| "py_len (JBool b) = Inl TypeError"
| "py_len (JNum n) = Inl TypeError"
| "py_len (JStr s) = Inr (length s)"
| "py_len (JArr xs) = Inr (length xs)"
| "py_len (JObj kvs) = Inr (length kvs)"

text \<open>
  \<open>s.split(sep)\<close> for a separator that is not empty: the pieces of \<open>s\<close> between the
  occurrences of \<open>sep\<close>, found from the left. \<open>acc\<close> holds the piece being read,
  reversed.
\<close>

fun split_from :: "string \<Rightarrow> string \<Rightarrow> string \<Rightarrow> string list" where
  "split_from sep acc [] = [rev acc]"
| "split_from sep acc (c # cs) =
     (if sep \<noteq> [] \<and> starts_with (c # cs) sep
      then rev acc # split_from sep [] (drop (length sep - 1) cs)
      else split_from sep (c # acc) cs)"

definition py_split :: "string \<Rightarrow> string \<Rightarrow> string list" where
  "py_split sep s = split_from sep [] s"

text \<open>
  \<open>re.search(r"\{.*\}", text, re.DOTALL).group()\<close>: from the first opening brace to
  the last closing brace after it; no match when there is no such pair.
\<close>

definition brace_span :: "string \<Rightarrow> string option" where
  "brace_span s =
     (let from_open = dropWhile (\<lambda>c. c \<noteq> CHR ''{'') s
      in if from_open = [] then None
         else
           (let inner = rev (dropWhile (\<lambda>c. c \<noteq> CHR ''}'') (rev (tl from_open)))
            in if inner = [] then None else Some (CHR ''{'' # inner)))"

text \<open>
  \<open>_parse_json\<close> of context.py. \<open>loads\<close> is \<open>json.loads\<close>, with \<open>None\<close> for a
  JSONDecodeError; the \<open>None\<close> that \<open>_parse_json\<close> returns is \<open>JNull\<close>. The three
  back-ticks of a markdown fence are written as the list \<open>fence\<close>.
\<close>

definition fence :: string where
  "fence = [CHR 0x60, CHR 0x60, CHR 0x60]"

definition strip_fences :: "string \<Rightarrow> string" where
  "strip_fences text =
     (if is_substring (fence @ ''json'') text
      then hd (py_split fence (py_split (fence @ ''json'') text ! 1))
      else if is_substring fence text
      then hd (py_split fence (py_split fence text ! 1))
      else text)"

definition parse_json :: "(string \<Rightarrow> json option) \<Rightarrow> string \<Rightarrow> json" where
  "parse_json loads text =
     (let t = py_strip (strip_fences text)
      in case loads t of
           Some v \<Rightarrow> v
         | None \<Rightarrow>
             (case brace_span t of
                None \<Rightarrow> JNull
              | Some m \<Rightarrow> (case loads m of Some v \<Rightarrow> v | None \<Rightarrow> JNull)))"

text \<open>
  The object \<open>DrawingContext.from_dict\<close> builds. Python does not check the field types
  a dataclass declares: each field holds whatever value the parsed answer has under its
  name, and the default of the dataclass when the name is absent.
\<close>

record ContextObject =
  ctx_sheet_number :: json
  ctx_sheet_title :: json
  ctx_building_type :: json
  ctx_floor_level :: json
  ctx_suites :: json
  ctx_corridor_layout :: json
  ctx_stairs :: json
  ctx_elevators :: json
  ctx_title_block :: json
  ctx_fixture_types_visible :: json

definition default_context :: ContextObject where
  "default_context =
     \<lparr>ctx_sheet_number = JNull, ctx_sheet_title = JNull, ctx_building_type = JNull,
      ctx_floor_level = JNull, ctx_suites = JArr [], ctx_corridor_layout = JNull,
      ctx_stairs = JArr [], ctx_elevators = JArr [], ctx_title_block = JObj [],
      ctx_fixture_types_visible = JArr []\<rparr>"

definition field_names :: "string list" where
  "field_names =
     [''sheet_number'', ''sheet_title'', ''building_type'', ''floor_level'', ''suites'',
      ''corridor_layout'', ''stairs'', ''elevators'', ''title_block'',
      ''fixture_types_visible'']"

text \<open>The value a dict gives a field: \<open>data.get(k)\<close> when \<open>k in data\<close>, else the default.\<close>

definition field_of :: "(string \<times> json) list \<Rightarrow> string \<Rightarrow> json \<Rightarrow> json" where
  "field_of kvs k dflt = (case map_of kvs k of None \<Rightarrow> dflt | Some v \<Rightarrow> v)"

text \<open>
  \<open>cls(**{k: data.get(k) for k in cls.__dataclass_fields__ if k in data})\<close>. For a
  dict every field present is taken. For a list or a string, \<open>k in data\<close> is a
  membership or substring test, and \<open>data.get\<close> raises AttributeError as soon as one
  field name passes it; for a number or \<open>True\<close>, \<open>k in data\<close> raises TypeError.
\<close>

fun from_dict :: "json \<Rightarrow> error + ContextObject" where
  "from_dict (JObj kvs) =
     Inr \<lparr>ctx_sheet_number = field_of kvs ''sheet_number'' JNull,
          ctx_sheet_title = field_of kvs ''sheet_title'' JNull,
          ctx_building_type = field_of kvs ''building_type'' JNull,
          ctx_floor_level = field_of kvs ''floor_level'' JNull,
          ctx_suites = field_of kvs ''suites'' (JArr []),
          ctx_corridor_layout = field_of kvs ''corridor_layout'' JNull,
          ctx_stairs = field_of kvs ''stairs'' (JArr []),
          ctx_elevators = field_of kvs ''elevators'' (JArr []),
          ctx_title_block = field_of kvs ''title_block'' (JObj []),
          ctx_fixture_types_visible = field_of kvs ''fixture_types_visible'' (JArr [])\<rparr>"
| "from_dict (JArr xs) =
     (if list_ex (\<lambda>k. JStr k \<in> set xs) field_names then Inl AttributeError
      else Inr default_context)"
| "from_dict (JStr s) =
     (if list_ex (\<lambda>k. is_substring k s) field_names then Inl AttributeError
      else Inr default_context)"
| "from_dict (JNum n) = Inl TypeError"
| "from_dict (JBool b) = Inl TypeError"
| "from_dict JNull = Inl TypeError"

text \<open>
  What happens inside the \<open>try\<close> block up to the text of the answer: rendering,
  encoding or the API call raises (before \<open>phase.vlm_calls = 1\<close>), reading
  \<open>response.content[0].text\<close> raises (after it), or the text is there. The string is
  \<open>str(e)\<close>.
\<close>

datatype call_outcome = CallFailed string | NoText string | Answered string

text \<open>\<open>str(e)\<close> of an exception raised by \<open>from_dict\<close>, cut down to the class name.\<close>

fun error_text :: "error \<Rightarrow> string" where
  "error_text ZeroDivisionError = ''ZeroDivisionError''"
| "error_text TypeError = ''TypeError''"
| "error_text AttributeError = ''AttributeError''"
| "error_text EmptyImageError = ''EmptyImageError''"

text \<open>
  The \<open>try\<close> statement of \<open>extract_context\<close>: the context and the phase result with
  which it is left, by its last line or by the \<open>except Exception\<close> clause.
\<close>

definition try_extract ::
  "(string \<Rightarrow> json option) \<Rightarrow> call_outcome \<Rightarrow> ContextObject \<times> ContextObject option PhaseResult" where
  "try_extract loads outcome =
     (case outcome of
        CallFailed e \<Rightarrow> (default_context, PhaseResult.make 1 [] 0 None (Some e))
      | NoText e \<Rightarrow> (default_context, PhaseResult.make 1 [] 1 None (Some e))
      | Answered text \<Rightarrow>
          (let data = parse_json loads text
           in if truthy data then
                (case from_dict data of
                   Inl exn \<Rightarrow>
                     (default_context, PhaseResult.make 1 [] 1 None (Some (error_text exn)))
                 | Inr context \<Rightarrow> (context, PhaseResult.make 1 [] 1 (Some context) None))
              else (default_context, PhaseResult.make 1 [] 1 (Some default_context) None)))"

text \<open>
  \<open>extract_context\<close>. After the \<open>try\<close> statement, outside of it, the log line
  evaluates \<open>len(context.suites)\<close> and \<open>len(context.fixture_types_visible)\<close>; then
  the pair is returned. \<open>Inl\<close> is an exception that leaves \<open>extract_context\<close>.
\<close>

definition extract_context ::
  "(string \<Rightarrow> json option) \<Rightarrow> call_outcome
     \<Rightarrow> error + ContextObject \<times> ContextObject option PhaseResult" where
  "extract_context loads outcome =
     (case try_extract loads outcome of
        (context, result) \<Rightarrow>
          (case py_len (ctx_suites context) of
             Inl e \<Rightarrow> Inl e
           | Inr n_suites \<Rightarrow>
               (case py_len (ctx_fixture_types_visible context) of
                  Inl e \<Rightarrow> Inl e
                | Inr n_types \<Rightarrow> Inr (context, result))))"

section \<open>Concrete inputs\<close>

text \<open>A detection with the given label, position, confidence, phase and room, and the
  defaults of the dataclass elsewhere.\<close>

definition det_at :: "string \<Rightarrow> int \<Rightarrow> int \<Rightarrow> string \<Rightarrow> int \<Rightarrow> string option \<Rightarrow> Detection" where
  "det_at l px py c ph r =
     \<lparr>label = l, variant = None, circuit = None, room = r, x = px, y = py,
      confidence = c, on_boundary = False, source_cell = None, source_phase = ph,
      notes' = ''''\<rparr>"

text \<open>A context with three numbered suites and one suite without a number.\<close>

definition example_context :: DrawingContext where
  "example_context =
     \<lparr>sheet_title = None,
      suites = [[(''number'', ''103''), (''location'', ''top-left'')],
                [(''number'', ''101'')], [(''number'', ''102'')], [(''location'', ''center'')]],
      fixture_types_visible = []\<rparr>"


text \<open>A raw detection that carries a label only, a cell, and a tool input.\<close>

definition raw_with_label :: "string \<Rightarrow> RawDetection" where
  "raw_with_label l =
     \<lparr>raw_label = Some l, raw_circuit = None, raw_room = None, raw_position = None,
      raw_confidence = None, raw_on_boundary = None, raw_notes = None\<rparr>"

definition example_cell :: CellInfo where
  "example_cell = \<lparr>row = 0, col = 1, x0 = 100, y0 = 0, x1 = 200, y1 = 80\<rparr>"

definition crop_input :: "rat \<Rightarrow> rat \<Rightarrow> rat \<Rightarrow> rat \<Rightarrow> ToolInput" where
  "crop_input px py w h =
     \<lparr>in_x_pct = Some px, in_y_pct = Some py, in_width_pct = Some w, in_height_pct = Some h,
      in_reason = Some ''boundary'', in_pattern_type = None, in_summary = None\<rparr>"

text \<open>
  A world whose orchestrating model asks, in its first answer, for two crops at once, and
  whose inspections find one fixture each.
\<close>

definition two_crops_world :: World where
  "two_crops_world =
     \<lparr>respond = (\<lambda>i. Response [ToolUseBlock ''tu_1'' ''crop_and_inspect'' (crop_input 25 25 20 20),
                                  ToolUseBlock ''tu_2'' ''crop_and_inspect'' (crop_input 75 75 20 20)]
                        ''tool_use''),
      inspect = (\<lambda>k. [raw_with_label ''LT04'']),
      page_size = (1000, 800)\<rparr>"

text \<open>
  The answer \<open>{"suites": null}\<close> of the context model, and \<open>json.loads\<close> as far as
  the examples need it: that text parses to the dict with \<open>suites\<close> set to \<open>None\<close>,
  the text \<open>no json here\<close> does not parse. \<open>CHR 0x22\<close> is the double quote.
\<close>

definition suites_null_text :: string where
  "suites_null_text = ''{'' @ [CHR 0x22] @ ''suites'' @ [CHR 0x22] @ '': null}''"

definition loads_example :: "string \<Rightarrow> json option" where
  "loads_example t = (if t = suites_null_text then Some (JObj [(''suites'', JNull)]) else None)"

text \<open>A world whose orchestrating model asks for one crop in every answer.\<close>

definition one_crop_world :: World where
  "one_crop_world =
     \<lparr>respond = (\<lambda>i. Response [TextBlock ''next region'',
                                  ToolUseBlock ''tu'' ''crop_and_inspect'' (crop_input 25 25 20 20)]
                        ''tool_use''),
      inspect = (\<lambda>k. [raw_with_label ''LT04'']),
      page_size = (1000, 800)\<rparr>"

section \<open>Properties of the grid decomposition\<close>

lemma set_py_range: "set (py_range n) = {i. 0 \<le> i \<and> i < n}"
proof (rule set_eqI)
  fix i :: int
  show "i \<in> set (py_range n) \<longleftrightarrow> i \<in> {i. 0 \<le> i \<and> i < n}"
  proof
    assume "i \<in> set (py_range n)"
    then obtain k where "k < nat n" "i = int k" by (auto simp: py_range_def)
    then show "i \<in> {i. 0 \<le> i \<and> i < n}" by auto
  next
    assume "i \<in> {i. 0 \<le> i \<and> i < n}"
    then have "nat i < nat n" "i = int (nat i)" by auto
    then have "nat i \<in> set [0..<nat n]" by simp
    then have "int (nat i) \<in> set (py_range n)" unfolding py_range_def by (simp only: set_map image_eqI)
    with \<open>i = int (nat i)\<close> show "i \<in> set (py_range n)" by simp
  qed
qed

lemma length_py_range: "length (py_range n) = nat n"
  by (simp add: py_range_def)

lemma distinct_py_range: "distinct (py_range n)"
  by (simp add: py_range_def distinct_map inj_on_def)

lemma length_concat_const:
  "(\<And>x. x \<in> set xs \<Longrightarrow> length (f x) = k) \<Longrightarrow> length (concat (map f xs)) = length xs * k"
  by (induction xs) auto

lemma mult_div_le: "1 \<le> (n::int) \<Longrightarrow> n * (W div n) \<le> W"
proof -
  assume n: "1 \<le> n"
  have "W = n * (W div n) + W mod n" by simp
  moreover have "0 \<le> W mod n" using n by simp
  ultimately show ?thesis by linarith
qed

lemma cell_clamp_noop:
  assumes "0 \<le> (W::int)" "1 \<le> n" "0 \<le> c" "c < n"
  shows "min (c * (W div n) + W div n) W = c * (W div n) + W div n"
proof -
  have cw: "0 \<le> W div n" using assms pos_imp_zdiv_nonneg_iff[of n W] by simp
  have "c * (W div n) + W div n = (c + 1) * (W div n)" by (simp add: algebra_simps)
  also have "\<dots> \<le> n * (W div n)" using assms cw by (intro mult_right_mono) auto
  also have "\<dots> \<le> W" using assms by (simp add: mult_div_le)
  finally show ?thesis by simp
qed

lemma make_cell_sel:
  "row (make_cell W H cw ch r c) = r" "col (make_cell W H cw ch r c) = c"
  by (simp_all add: make_cell_def Let_def)

lemma make_cell_inj:
  assumes "make_cell W H cw ch r c = make_cell W H cw ch r' c'"
  shows "r = r' \<and> c = c'"
proof -
  have "row (make_cell W H cw ch r c) = row (make_cell W H cw ch r' c')"
       "col (make_cell W H cw ch r c) = col (make_cell W H cw ch r' c')"
    using assms by simp_all
  then show ?thesis by (simp only: make_cell_sel)
qed

lemma in_set_cells:
  "a \<in> set (concat (map (\<lambda>r. map (\<lambda>c. make_cell W H cw ch r c) (py_range ncols)) (py_range nrows)))
   \<longleftrightarrow> (\<exists>r c. 0 \<le> r \<and> r < nrows \<and> 0 \<le> c \<and> c < ncols \<and> a = make_cell W H cw ch r c)"
proof -
  have "a \<in> set (concat (map (\<lambda>r. map (\<lambda>c. make_cell W H cw ch r c) (py_range ncols)) (py_range nrows)))
    \<longleftrightarrow> (\<exists>r\<in>set (py_range nrows). \<exists>c\<in>set (py_range ncols). a = make_cell W H cw ch r c)"
    by auto
  also have "\<dots> \<longleftrightarrow> (\<exists>r c. 0 \<le> r \<and> r < nrows \<and> 0 \<le> c \<and> c < ncols \<and> a = make_cell W H cw ch r c)"
    unfolding set_py_range Bex_def mem_Collect_eq by blast
  finally show ?thesis .
qed


lemma in_cell_make_cell:
  assumes "0 \<le> W" "0 \<le> H" "1 \<le> ncols" "1 \<le> nrows"
    and "0 \<le> r" "r < nrows" "0 \<le> c" "c < ncols"
  shows "in_cell (make_cell W H (W div ncols) (H div nrows) r c) px py \<longleftrightarrow>
         c * (W div ncols) \<le> px \<and> px < c * (W div ncols) + W div ncols \<and>
         r * (H div nrows) \<le> py \<and> py < r * (H div nrows) + H div nrows"
  using cell_clamp_noop[OF assms(1,3,7,8)] cell_clamp_noop[OF assms(2,4,5,6)]
  by (simp add: in_cell_def make_cell_def Let_def)

lemma span_index:
  assumes "0 \<le> (p::int)" "p < n * w" "1 \<le> n"
  shows "0 \<le> p div w \<and> p div w < n \<and> (p div w) * w \<le> p \<and> p < (p div w) * w + w"
proof -
  have w: "0 < w"
  proof (rule ccontr)
    assume "\<not> 0 < w"
    then have "n * w \<le> 0" using assms(3) by (intro mult_nonneg_nonpos) auto
    with assms show False by linarith
  qed
  have 1: "0 \<le> p div w" using assms w pos_imp_zdiv_nonneg_iff[of w p] by simp
  have "p = w * (p div w) + p mod w" by simp
  moreover have "0 \<le> p mod w" "p mod w < w" using w by simp_all
  ultimately have 3: "(p div w) * w \<le> p \<and> p < (p div w) * w + w"
    by (metis add_less_cancel_left mult.commute le_add_same_cancel1)
  have 2: "p div w < n"
  proof (rule ccontr)
    assume "\<not> p div w < n"
    then have "n * w \<le> (p div w) * w" using w by (intro mult_right_mono) auto
    with 3 assms show False by linarith
  qed
  from 1 2 3 show ?thesis by simp
qed

lemma distinct_cells:
  assumes "1 \<le> ncols"
  shows "distinct (concat (map (\<lambda>r. map (\<lambda>c. make_cell W H cw ch r c) (py_range ncols)) (py_range nrows)))"
proof (rule distinct_concat)
  let ?f = "\<lambda>r. map (make_cell W H cw ch r) (py_range ncols)"
  have z: "0 \<in> set (py_range ncols)" using assms by (simp add: set_py_range)
  have inj: "?f r = ?f r' \<Longrightarrow> r = r'" for r r'
  proof -
    assume "?f r = ?f r'"
    then have "make_cell W H cw ch r 0 = make_cell W H cw ch r' 0"
      using z by (simp only: map_eq_conv)
    then show "r = r'" using make_cell_inj by blast
  qed
  have "inj_on ?f (set (py_range nrows))"
    by (rule inj_onI) (rule inj)
  then show "distinct (map ?f (py_range nrows))"
    by (simp add: distinct_map distinct_py_range)
  show "distinct ys" if "ys \<in> set (map ?f (py_range nrows))" for ys
  proof -
    from that obtain r where ys: "ys = ?f r" by auto
    have "inj_on (make_cell W H cw ch r) (set (py_range ncols))"
      by (rule inj_onI) (use make_cell_inj in blast)
    then show ?thesis unfolding ys by (simp add: distinct_map distinct_py_range)
  qed
  show "set ys \<inter> set zs = {}"
    if "ys \<in> set (map ?f (py_range nrows))" "zs \<in> set (map ?f (py_range nrows))" "ys \<noteq> zs" for ys zs
  proof -
    from that obtain r r' where ys: "ys = ?f r" and zs: "zs = ?f r'" by auto
    with that have ne: "r \<noteq> r'" by auto
    show ?thesis
    proof (rule ccontr)
      assume "set ys \<inter> set zs \<noteq> {}"
      then obtain a where "a \<in> set ys" "a \<in> set zs" by auto
      then have "a \<in> make_cell W H cw ch r ` set (py_range ncols)"
        "a \<in> make_cell W H cw ch r' ` set (py_range ncols)"
        unfolding ys zs by simp_all
      then have "row a = r" "row a = r'"
        by (metis imageE make_cell_sel(1))+
      then have "r = r'" by simp
      with ne show False by simp
    qed
  qed
qed

lemma length_cells:
  "length (concat (map (\<lambda>r. map (\<lambda>c. make_cell W H cw ch r c) (py_range ncols)) (py_range nrows)))
   = nat nrows * nat ncols"
  by (subst length_concat_const[where k = "nat ncols"]) (simp_all add: length_py_range)

lemma span_disjoint:
  fixes w :: int
  assumes "c \<noteq> c'" "c * w \<le> p" "p < c * w + w" "c' * w \<le> p" "p < c' * w + w"
  shows False
proof -
  have w: "0 \<le> w" using assms by linarith
  have step: "a < b \<Longrightarrow> a * w + w \<le> b * w" for a b :: int
  proof -
    assume "a < b"
    then have "(a + 1) * w \<le> b * w" using w by (intro mult_right_mono) auto
    then show ?thesis by (simp add: algebra_simps)
  qed
  from assms(1) consider "c < c'" | "c' < c" by linarith
  then show False
  proof cases
    case 1
    from step[OF 1] assms show False by linarith
  next
    case 2
    from step[OF 2] assms show False by linarith
  qed
qed

lemma span_upper:
  fixes w :: int
  assumes "0 \<le> c" "c < n" "c * w \<le> p" "p < c * w + w"
  shows "0 \<le> p \<and> p < n * w"
proof -
  have w: "0 \<le> w" using assms by linarith
  have "0 \<le> c * w" using assms w by simp
  moreover have "(c + 1) * w \<le> n * w" using assms w by (intro mult_right_mono) auto
  then have "c * w + w \<le> n * w" by (simp add: algebra_simps)
  ultimately show ?thesis using assms by linarith
qed

lemma covered_cells_iff:
  assumes "0 \<le> W" "0 \<le> H" "1 \<le> ncols" "1 \<le> nrows"
  shows "list_ex (\<lambda>c. in_cell c px py)
           (concat (map (\<lambda>r. map (\<lambda>c. make_cell W H (W div ncols) (H div nrows) r c) (py_range ncols)) (py_range nrows)))
         \<longleftrightarrow> 0 \<le> px \<and> px < ncols * (W div ncols) \<and> 0 \<le> py \<and> py < nrows * (H div nrows)"
    (is "?L \<longleftrightarrow> ?R")
proof
  assume ?L
  then obtain a where a: "a \<in> set (concat (map (\<lambda>r. map (\<lambda>c. make_cell W H (W div ncols) (H div nrows) r c) (py_range ncols)) (py_range nrows)))"
    and ia: "in_cell a px py" by (auto simp: list_ex_iff)
  from a obtain r c where rc: "0 \<le> r" "r < nrows" "0 \<le> c" "c < ncols"
    and ae: "a = make_cell W H (W div ncols) (H div nrows) r c"
    unfolding in_set_cells by blast
  from ia have "c * (W div ncols) \<le> px \<and> px < c * (W div ncols) + W div ncols \<and>
         r * (H div nrows) \<le> py \<and> py < r * (H div nrows) + H div nrows"
    unfolding ae using in_cell_make_cell[OF assms rc] by simp
  then show ?R using span_upper[OF rc(3,4), of "W div ncols" px] span_upper[OF rc(1,2), of "H div nrows" py]
    by simp
next
  assume R: ?R
  let ?c = "px div (W div ncols)" and ?r = "py div (H div nrows)"
  have c: "0 \<le> ?c \<and> ?c < ncols \<and> ?c * (W div ncols) \<le> px \<and> px < ?c * (W div ncols) + W div ncols"
    using R assms by (intro span_index) auto
  have r: "0 \<le> ?r \<and> ?r < nrows \<and> ?r * (H div nrows) \<le> py \<and> py < ?r * (H div nrows) + H div nrows"
    using R assms by (intro span_index) auto
  have "in_cell (make_cell W H (W div ncols) (H div nrows) ?r ?c) px py"
    using in_cell_make_cell[OF assms, of ?r ?c px py] c r by simp
  moreover have "make_cell W H (W div ncols) (H div nrows) ?r ?c \<in> set (concat (map (\<lambda>r. map (\<lambda>c. make_cell W H (W div ncols) (H div nrows) r c) (py_range ncols)) (py_range nrows)))"
    unfolding in_set_cells using c r by blast
  ultimately show ?L unfolding list_ex_iff by blast
qed

lemma cells_disjoint:
  assumes "0 \<le> W" "0 \<le> H" "1 \<le> ncols" "1 \<le> nrows"
    and a: "a \<in> set (concat (map (\<lambda>r. map (\<lambda>c. make_cell W H (W div ncols) (H div nrows) r c) (py_range ncols)) (py_range nrows)))"
    and b: "b \<in> set (concat (map (\<lambda>r. map (\<lambda>c. make_cell W H (W div ncols) (H div nrows) r c) (py_range ncols)) (py_range nrows)))"
    and ne: "a \<noteq> b"
  shows "\<not> (in_cell a px py \<and> in_cell b px py)"
proof
  assume both: "in_cell a px py \<and> in_cell b px py"
  from a obtain r c where rc: "0 \<le> r" "r < nrows" "0 \<le> c" "c < ncols"
    and ae: "a = make_cell W H (W div ncols) (H div nrows) r c"
    unfolding in_set_cells by blast
  from b obtain r' c' where rc': "0 \<le> r'" "r' < nrows" "0 \<le> c'" "c' < ncols"
    and be: "b = make_cell W H (W div ncols) (H div nrows) r' c'"
    unfolding in_set_cells by blast
  from both have A: "c * (W div ncols) \<le> px" "px < c * (W div ncols) + W div ncols"
         "r * (H div nrows) \<le> py" "py < r * (H div nrows) + H div nrows"
    unfolding ae using in_cell_make_cell[OF assms(1-4) rc] by simp_all
  from both have B: "c' * (W div ncols) \<le> px" "px < c' * (W div ncols) + W div ncols"
         "r' * (H div nrows) \<le> py" "py < r' * (H div nrows) + H div nrows"
    unfolding be using in_cell_make_cell[OF assms(1-4) rc'] by simp_all
  from ne ae be have "c \<noteq> c' \<or> r \<noteq> r'" by auto
  then show False
  proof
    assume "c \<noteq> c'"
    from span_disjoint[OF this A(1,2) B(1,2)] show False .
  next
    assume "r \<noteq> r'"
    from span_disjoint[OF this A(3,4) B(3,4)] show False .
  qed
qed

lemma collect_all_Inr: "collect (map Inr xs) = Inr xs"
  by (induction xs) simp_all

lemma collect_map_ok:
  "(\<And>a. a \<in> set xs \<Longrightarrow> f a = Inr a) \<Longrightarrow> collect (map f xs) = Inr xs"
  by (induction xs) simp_all

lemma concat_map_crop:
  "concat (map (\<lambda>r. map (\<lambda>c. crop_and_save (make_cell W H cw ch r c)) cs) rs)
     = map crop_and_save (concat (map (\<lambda>r. map (\<lambda>c. make_cell W H cw ch r c) cs) rs))"
  by (simp add: map_concat comp_def)

lemma div_pos_of_le:
  fixes W n :: int
  assumes "1 \<le> n" "n \<le> W"
  shows "1 \<le> W div n"
proof -
  have "n div n \<le> W div n" using assms by (intro zdiv_mono1) simp_all
  then show ?thesis using assms by simp
qed

lemma cells_saved:
  assumes "1 \<le> ncols" "1 \<le> nrows" "ncols \<le> W" "nrows \<le> H"
  shows "collect (concat (map (\<lambda>r. map (\<lambda>c. crop_and_save (make_cell W H (W div ncols) (H div nrows) r c))
                                   (py_range ncols)) (py_range nrows)))
         = Inr (concat (map (\<lambda>r. map (\<lambda>c. make_cell W H (W div ncols) (H div nrows) r c)
                                   (py_range ncols)) (py_range nrows)))"
  unfolding concat_map_crop
proof (rule collect_map_ok)
  fix a
  assume "a \<in> set (concat (map (\<lambda>r. map (\<lambda>c. make_cell W H (W div ncols) (H div nrows) r c)
                                   (py_range ncols)) (py_range nrows)))"
  then obtain r c where rc: "0 \<le> r" "r < nrows" "0 \<le> c" "c < ncols"
    and ae: "a = make_cell W H (W div ncols) (H div nrows) r c"
    unfolding in_set_cells by blast
  have W0: "0 \<le> W" and H0: "0 \<le> H" using assms by simp_all
  have cw: "1 \<le> W div ncols" using assms(1,3) by (rule div_pos_of_le)
  have ch: "1 \<le> H div nrows" using assms(2,4) by (rule div_pos_of_le)
  have "x1 a = x0 a + W div ncols" "y1 a = y0 a + H div nrows"
    unfolding ae
    using cell_clamp_noop[OF W0 assms(1) rc(3,4)] cell_clamp_noop[OF H0 assms(2) rc(1,2)]
    by (simp_all add: make_cell_def Let_def)
  with cw ch show "crop_and_save a = Inr a" by (simp add: crop_and_save_def)
qed

lemma py_range_pos: "1 \<le> n \<Longrightarrow> py_range n = 0 # map int [1..<nat n]"
proof -
  assume "1 \<le> n"
  then have "[0..<nat n] = 0 # [1..<nat n]" by (simp add: upt_rec)
  then show ?thesis by (simp add: py_range_def)
qed

lemma first_cell_empty:
  assumes "1 \<le> ncols" "1 \<le> nrows" "0 \<le> W" "0 \<le> H" "W < ncols \<or> H < nrows"
  shows "collect (concat (map (\<lambda>r. map (\<lambda>c. crop_and_save (make_cell W H (W div ncols) (H div nrows) r c))
                                   (py_range ncols)) (py_range nrows)))
         = Inl EmptyImageError"
proof -
  have z: "W div ncols = 0 \<or> H div nrows = 0"
    using assms by auto
  have "crop_and_save (make_cell W H (W div ncols) (H div nrows) 0 0) = Inl EmptyImageError"
    using z assms(3,4) by (auto simp: crop_and_save_def make_cell_def Let_def)
  then show ?thesis
    by (simp add: py_range_pos[OF assms(1)] py_range_pos[OF assms(2)])
qed

text \<open>
  Claim C2, as the code has it. For an image of width \<open>W\<close> and height \<open>H\<close> and a grid
  of \<open>ncols\<close> by \<open>nrows\<close> with \<open>1 \<le> ncols \<le> W\<close> and \<open>1 \<le> nrows \<le> H\<close>,
  \<open>decompose\<close> returns exactly \<open>ncols * nrows\<close> cells, all different and pairwise
  disjoint. Every cell is exactly \<open>W div ncols\<close> wide and \<open>H div nrows\<close> high: the
  \<open>min\<close> against the image edge never takes effect, so no cell absorbs a remainder. The
  union of the cells is the rectangle
  \<open>[0, ncols * (W div ncols)) \<times> [0, nrows * (H div nrows))\<close>, which lies inside the
  image and is the whole image exactly when \<open>ncols\<close> divides \<open>W\<close> and \<open>nrows\<close>
  divides \<open>H\<close>. With more columns than pixels of width, or more rows than pixels of
  height, the first cell has no pixels and \<open>decompose\<close> raises.
\<close>

theorem decompose_truncated_partition:
  assumes "1 \<le> W" "1 \<le> H"
    and cfg: "coarse_grid_cols cfg = ncols" "coarse_grid_rows cfg = nrows"
    and nc: "1 \<le> ncols" and nr: "1 \<le> nrows"
  shows "(ncols \<le> W \<and> nrows \<le> H \<longrightarrow>
          (\<exists>g. decompose (W, H) cfg = Inr g
             \<and> int (length (cells g)) = ncols * nrows
             \<and> distinct (cells g)
             \<and> (\<forall>a\<in>set (cells g). x1 a = x0 a + W div ncols \<and> y1 a = y0 a + H div nrows)
             \<and> (\<forall>a\<in>set (cells g). \<forall>b\<in>set (cells g). a \<noteq> b \<longrightarrow>
                    (\<forall>px py. \<not> (in_cell a px py \<and> in_cell b px py)))
             \<and> (\<forall>px py. covered g px py \<longleftrightarrow>
                    0 \<le> px \<and> px < ncols * (W div ncols) \<and> 0 \<le> py \<and> py < nrows * (H div nrows))
             \<and> ncols * (W div ncols) \<le> W \<and> nrows * (H div nrows) \<le> H
             \<and> ((\<forall>px py. covered g px py \<longleftrightarrow> 0 \<le> px \<and> px < W \<and> 0 \<le> py \<and> py < H)
                  \<longleftrightarrow> ncols dvd W \<and> nrows dvd H)))
       \<and> (W < ncols \<or> H < nrows \<longrightarrow> decompose (W, H) cfg = Inl EmptyImageError)"
proof (intro conjI impI)
  assume big: "W < ncols \<or> H < nrows"
  have W0: "0 \<le> W" and H0: "0 \<le> H" using assms by simp_all
  show "decompose (W, H) cfg = Inl EmptyImageError"
    using cfg nc nr first_cell_empty[OF nc nr W0 H0 big] by (simp add: Let_def)
next
  assume fits: "ncols \<le> W \<and> nrows \<le> H"
  let ?cs = "concat (map (\<lambda>r. map (\<lambda>c. make_cell W H (W div ncols) (H div nrows) r c) (py_range ncols)) (py_range nrows))"
  let ?g = "\<lparr>cells = ?cs, plan_width = W, plan_height = H,
             cell_width = W div ncols, cell_height = H div nrows, cols = ncols, rows = nrows\<rparr>"
  have W0: "0 \<le> W" and H0: "0 \<le> H" using assms by simp_all
  have saved: "collect (concat (map (\<lambda>r. map (\<lambda>c. crop_and_save (make_cell W H (W div ncols) (H div nrows) r c))
                                   (py_range ncols)) (py_range nrows))) = Inr ?cs"
    using fits by (intro cells_saved nc nr) simp_all
  have dec: "decompose (W, H) cfg = Inr ?g"
    using cfg nc nr by (simp add: Let_def saved)
  have cg: "cells ?g = ?cs" by simp
  have len: "int (length ?cs) = ncols * nrows"
    using nc nr by (simp add: length_cells mult.commute)
  have dist: "distinct ?cs" using nc by (rule distinct_cells)
  have size: "\<forall>a\<in>set ?cs. x1 a = x0 a + W div ncols \<and> y1 a = y0 a + H div nrows"
  proof
    fix a assume "a \<in> set ?cs"
    then obtain r c where rc: "0 \<le> r" "r < nrows" "0 \<le> c" "c < ncols"
      and ae: "a = make_cell W H (W div ncols) (H div nrows) r c"
      unfolding in_set_cells by blast
    show "x1 a = x0 a + W div ncols \<and> y1 a = y0 a + H div nrows"
      unfolding ae
      using cell_clamp_noop[OF W0 nc rc(3,4)] cell_clamp_noop[OF H0 nr rc(1,2)]
      by (simp add: make_cell_def Let_def)
  qed
  have disj: "\<forall>a\<in>set ?cs. \<forall>b\<in>set ?cs. a \<noteq> b \<longrightarrow> (\<forall>px py. \<not> (in_cell a px py \<and> in_cell b px py))"
    using cells_disjoint[OF W0 H0 nc nr] by blast
  have cov: "\<forall>px py. covered ?g px py \<longleftrightarrow>
            0 \<le> px \<and> px < ncols * (W div ncols) \<and> 0 \<le> py \<and> py < nrows * (H div nrows)"
    unfolding covered_def cg using covered_cells_iff[OF W0 H0 nc nr] by blast
  have leW: "ncols * (W div ncols) \<le> W" using nc by (rule mult_div_le)
  have leH: "nrows * (H div nrows) \<le> H" using nr by (rule mult_div_le)
  have full: "(\<forall>px py. covered ?g px py \<longleftrightarrow> 0 \<le> px \<and> px < W \<and> 0 \<le> py \<and> py < H)
          \<longleftrightarrow> ncols dvd W \<and> nrows dvd H"
  proof
    assume all: "\<forall>px py. covered ?g px py \<longleftrightarrow> 0 \<le> px \<and> px < W \<and> 0 \<le> py \<and> py < H"
    have "covered ?g (W - 1) (H - 1)" using all assms by simp
    then have "W - 1 < ncols * (W div ncols)" "H - 1 < nrows * (H div nrows)"
      using cov by blast+
    with leW leH have "ncols * (W div ncols) = W" "nrows * (H div nrows) = H" by linarith+
    then show "ncols dvd W \<and> nrows dvd H" by (metis dvd_triv_left)
  next
    assume "ncols dvd W \<and> nrows dvd H"
    then have "ncols * (W div ncols) = W" "nrows * (H div nrows) = H" by simp_all
    with cov show "\<forall>px py. covered ?g px py \<longleftrightarrow> 0 \<le> px \<and> px < W \<and> 0 \<le> py \<and> py < H"
      by simp
  qed
  show "\<exists>g. decompose (W, H) cfg = Inr g
     \<and> int (length (cells g)) = ncols * nrows
     \<and> distinct (cells g)
     \<and> (\<forall>a\<in>set (cells g). x1 a = x0 a + W div ncols \<and> y1 a = y0 a + H div nrows)
     \<and> (\<forall>a\<in>set (cells g). \<forall>b\<in>set (cells g). a \<noteq> b \<longrightarrow>
            (\<forall>px py. \<not> (in_cell a px py \<and> in_cell b px py)))
     \<and> (\<forall>px py. covered g px py \<longleftrightarrow>
            0 \<le> px \<and> px < ncols * (W div ncols) \<and> 0 \<le> py \<and> py < nrows * (H div nrows))
     \<and> ncols * (W div ncols) \<le> W \<and> nrows * (H div nrows) \<le> H
     \<and> ((\<forall>px py. covered g px py \<longleftrightarrow> 0 \<le> px \<and> px < W \<and> 0 \<le> py \<and> py < H)
          \<longleftrightarrow> ncols dvd W \<and> nrows dvd H)"
    apply (rule exI[of _ ?g])
    apply (intro conjI)
    apply (rule dec)
    using len apply simp
    using dist apply simp
    using size apply simp
    using disj apply simp
    apply (rule cov)
    apply (rule leW)
    apply (rule leH)
    apply (rule full)
    done
qed

text \<open>
  The theorem at a 10 x 10 image cut 3 x 3 (nine cells that cover pixel (8, 8) but not
  (9, 8)) and at a 2 x 2 image cut into 3 columns (no grid).
\<close>

theorem decompose_truncated_partition_witness:
  "(1::int) \<le> 10 \<and> (1::int) \<le> 3 \<and> (3::int) \<le> 10 \<and> (2::int) < 3
   \<and> (\<exists>g. decompose (10, 10) (default_config\<lparr>coarse_grid_cols := 3, coarse_grid_rows := 3\<rparr>) = Inr g
        \<and> length (cells g) = 9 \<and> distinct (cells g)
        \<and> covered g 8 8 \<and> \<not> covered g 9 8 \<and> \<not> (3::int) dvd 10)
   \<and> decompose (2, 2) (default_config\<lparr>coarse_grid_cols := 3, coarse_grid_rows := 1\<rparr>)
       = Inl EmptyImageError"
proof -
  let ?cfg = "default_config\<lparr>coarse_grid_cols := 3, coarse_grid_rows := 3\<rparr>"
  let ?cfg2 = "default_config\<lparr>coarse_grid_cols := 3, coarse_grid_rows := 1\<rparr>"
  have h: "(1::int) \<le> 10" "(1::int) \<le> 3" "(3::int) \<le> 10" "(2::int) < 3" by simp_all
  have c: "coarse_grid_cols ?cfg = 3" "coarse_grid_rows ?cfg = 3" by simp_all
  from decompose_truncated_partition[OF h(1) h(1) c h(2) h(2)] h(3)
  obtain g where g: "decompose (10, 10) ?cfg = Inr g"
    "int (length (cells g)) = 3 * 3" "distinct (cells g)"
    "\<forall>px py. covered g px py \<longleftrightarrow>
            0 \<le> px \<and> px < 3 * (10 div 3) \<and> 0 \<le> py \<and> py < 3 * (10 div 3)"
    by blast
  from g(2) have "length (cells g) = 9" by simp
  moreover from g(4) have "covered g 8 8" "\<not> covered g 9 8" by simp_all
  ultimately have first: "\<exists>g. decompose (10, 10) ?cfg = Inr g
        \<and> length (cells g) = 9 \<and> distinct (cells g)
        \<and> covered g 8 8 \<and> \<not> covered g 9 8 \<and> \<not> (3::int) dvd 10"
    using g(1,3) by auto
  have h2: "(1::int) \<le> 2" "(1::int) \<le> 1" by simp_all
  have c2: "coarse_grid_cols ?cfg2 = 3" "coarse_grid_rows ?cfg2 = 1" by simp_all
  from decompose_truncated_partition[OF h2(1) h2(1) c2 h(2) h2(2)] h(4)
  have second: "decompose (2, 2) ?cfg2 = Inl EmptyImageError" by blast
  from first second h show ?thesis by blast
qed

text \<open>
  Claim C2 as stated fails: a 10 x 10 image cut 3 x 3 has cells of 3 x 3 pixels, the last
  column ends at \<open>x1 = 9\<close>, and pixel (9, 9) of the image is in no cell.
\<close>

theorem decompose_full_cover_counterexample:
  "\<exists>g. decompose (10, 10) (default_config\<lparr>coarse_grid_cols := 3, coarse_grid_rows := 3\<rparr>) = Inr g
       \<and> length (cells g) = 9 \<and> x1 (last (cells g)) = 9
       \<and> plan_width g = 10 \<and> \<not> covered g 9 9"
  by (simp add: Let_def py_range_def make_cell_def crop_and_save_def covered_def in_cell_def upt_rec)

section \<open>Properties of the synthesis\<close>

lemma is_dup_iff:
  "is_dup radius kept det \<longleftrightarrow> (\<exists>e\<in>set kept. is_close radius e det)"
  by (simp add: is_dup_def list_ex_iff)

lemma dedup_loop_count:
  "dedup_loop radius ds kept n = (kept', n') \<Longrightarrow>
   length kept' + n' = length kept + n + length ds"
  by (induction ds arbitrary: kept n) (auto split: if_splits)

lemma dedup_loop_far:
  "dedup_loop radius ds kept n = (kept', n') \<Longrightarrow>
   sorted_wrt (\<lambda>a b. \<not> is_close radius a b) kept \<Longrightarrow>
   sorted_wrt (\<lambda>a b. \<not> is_close radius a b) kept'"
proof (induction ds arbitrary: kept n)
  case Nil
  then show ?case by simp
next
  case (Cons d ds)
  show ?case
  proof (cases "is_dup radius kept d")
    case True
    with Cons.prems have "dedup_loop radius ds kept (n + 1) = (kept', n')" by simp
    from Cons.IH[OF this Cons.prems(2)] show ?thesis .
  next
    case False
    with Cons.prems have run: "dedup_loop radius ds (kept @ [d]) n = (kept', n')" by simp
    from False have "\<forall>e\<in>set kept. \<not> is_close radius e d" by (simp add: is_dup_iff)
    with Cons.prems(2) have "sorted_wrt (\<lambda>a b. \<not> is_close radius a b) (kept @ [d])"
      by (simp add: sorted_wrt_append)
    from Cons.IH[OF run this] show ?thesis .
  qed
qed


lemma counter_add_keys: "map fst (counter_add k m) = (if k \<in> fst ` set m then map fst m else map fst m @ [k])"
  by (induction m) (force+)

lemma counter_add_distinct: "distinct (map fst m) \<Longrightarrow> distinct (map fst (counter_add k m))"
  by (simp add: counter_add_keys)

lemma counter_add_sum: "sum_list (map snd (counter_add k m)) = sum_list (map snd m) + 1"
  by (induction m) auto

lemma counter_add_lookup:
  "map_of (counter_add k m) l =
     (if l = k then Some (case map_of m k of None \<Rightarrow> 1 | Some n \<Rightarrow> n + 1) else map_of m l)"
  by (induction m) auto

lemma foldl_counter:
  "distinct (map fst m) \<Longrightarrow>
   distinct (map fst (foldl (\<lambda>m k. counter_add k m) m xs))
   \<and> sum_list (map snd (foldl (\<lambda>m k. counter_add k m) m xs)) = sum_list (map snd m) + length xs
   \<and> (\<forall>l. map_of (foldl (\<lambda>m k. counter_add k m) m xs) l =
        (if count_list xs l = 0 then map_of m l
         else Some ((case map_of m l of None \<Rightarrow> 0 | Some n \<Rightarrow> n) + count_list xs l)))"
proof (induction xs arbitrary: m)
  case Nil
  then show ?case by simp
next
  case (Cons a xs)
  from Cons.IH[OF counter_add_distinct[OF Cons.prems], of a]
  show ?case by (auto simp: counter_add_sum counter_add_lookup split: option.splits)
qed

lemma Counter_props:
  "distinct (map fst (Counter xs))"
  "sum_list (map snd (Counter xs)) = length xs"
  "map_of (Counter xs) l = (if count_list xs l = 0 then None else Some (count_list xs l))"
  using foldl_counter[of "[]" xs] by (simp_all add: Counter_def)

lemma sorted_fst_of_sorted:
  fixes ps :: "('a::linorder \<times> 'b::linorder) list"
  shows "sorted ps \<Longrightarrow> sorted (map fst ps)"
  by (induction ps) (auto simp: less_eq_prod_def)

lemma sort_items:
  fixes m :: "('a::linorder \<times> nat) list"
  assumes "distinct (map fst m)"
  shows "sorted_wrt (<) (map fst (sort m))"
    and "map_of (sort m) = map_of m"
    and "sum_list (map snd (sort m)) = sum_list (map snd m)"
proof -
  have dm: "distinct m" using assms by (rule distinct_map[THEN iffD1, THEN conjunct1])
  have "inj_on fst (set m)" using assms by (simp add: distinct_map)
  then have d2: "distinct (map fst (sort m))" using dm by (simp add: distinct_map)
  have "sorted (map fst (sort m))" by (rule sorted_fst_of_sorted) simp
  with d2 show "sorted_wrt (<) (map fst (sort m))" by (simp add: strict_sorted_iff)
  show "map_of (sort m) = map_of m"
    using d2 assms by (simp add: map_of_inject_set)
  have "sum_list (map snd (sort m)) = sum snd (set (sort m))"
    using dm by (intro sum_list_distinct_conv_sum_set) simp
  also have "\<dots> = sum_list (map snd m)"
    using dm by (simp add: sum_list_distinct_conv_sum_set)
  finally show "sum_list (map snd (sort m)) = sum_list (map snd m)" .
qed

text \<open>
  Claim C3. For every detection list, configuration and context, the report of
  \<open>synthesize\<close> has \<open>total\<close> equal to the number of kept detections and to the sum
  of the values of \<open>final_counts\<close>; \<open>final_counts\<close> maps every label to the number of
  kept detections with that label (and has no entry for a label that no kept detection
  has), and its keys are in strictly ascending lexical order.
\<close>

theorem synthesize_report_invariant:
  "(let r = synthesize order dets cfg context in
      total r = length (detections r)
    \<and> sum_list (map snd (final_counts r)) = total r
    \<and> (\<forall>l. map_of (final_counts r) l =
           (if count_list (map label (detections r)) l = 0 then None
            else Some (count_list (map label (detections r)) l)))
    \<and> sorted_wrt (<) (map fst (final_counts r)))"
proof (cases "dets = []")
  case True
  then show ?thesis by (simp add: synthesize_def empty_report_def)
next
  case False
  obtain kept dups where run:
    "dedup_loop (dedup_radius_px cfg) (py_sorted_reverse dedup_key dets) [] 0 = (kept, dups)"
    by (cases "dedup_loop (dedup_radius_px cfg) (py_sorted_reverse dedup_key dets) [] 0")
  have d: "distinct (map fst (Counter (map label kept)))" by (rule Counter_props)
  have "sum_list (map snd (sort (Counter (map label kept)))) = length kept"
    using sort_items(3)[OF d] Counter_props(2)[of "map label kept"] by simp
  moreover have "map_of (sort (Counter (map label kept))) =
        (\<lambda>l. if count_list (map label kept) l = 0 then None
             else Some (count_list (map label kept) l))"
    using sort_items(2)[OF d] Counter_props(3)[of "map label kept"] by auto
  moreover note sort_items(1)[OF d]
  ultimately show ?thesis
    using False run by (simp add: synthesize_def Let_def cong: if_cong)
qed

lemma synthesize_detections:
  "detections (synthesize order dets cfg context) =
     fst (dedup_loop (dedup_radius_px cfg) (py_sorted_reverse dedup_key dets) [] 0)"
proof (cases "dets = []")
  case True
  then show ?thesis by (simp add: synthesize_def empty_report_def py_sorted_reverse_def)
next
  case False
  then show ?thesis by (simp add: synthesize_def Let_def split: prod.splits)
qed


text \<open>
  Claim C9. The detection list of the report never holds, at two different positions, two
  detections with the same label whose x coordinates differ by less than the dedup radius
  and whose y coordinates differ by less than the dedup radius.
\<close>

theorem synthesize_no_close_pair:
  "i < j \<Longrightarrow> j < length (detections (synthesize order dets cfg context)) \<Longrightarrow>
   \<not> (label (detections (synthesize order dets cfg context) ! i)
        = label (detections (synthesize order dets cfg context) ! j)
      \<and> \<bar>x (detections (synthesize order dets cfg context) ! i)
         - x (detections (synthesize order dets cfg context) ! j)\<bar> < dedup_radius_px cfg
      \<and> \<bar>y (detections (synthesize order dets cfg context) ! i)
         - y (detections (synthesize order dets cfg context) ! j)\<bar> < dedup_radius_px cfg)"
proof -
  assume ij: "i < j" "j < length (detections (synthesize order dets cfg context))"
  let ?out = "detections (synthesize order dets cfg context)"
  obtain kept dups where run:
    "dedup_loop (dedup_radius_px cfg) (py_sorted_reverse dedup_key dets) [] 0 = (kept, dups)"
    by (cases "dedup_loop (dedup_radius_px cfg) (py_sorted_reverse dedup_key dets) [] 0")
  have out: "?out = kept" by (simp add: synthesize_detections run)
  have "sorted_wrt (\<lambda>a b. \<not> is_close (dedup_radius_px cfg) a b) kept"
    using dedup_loop_far[OF run] by simp
  then have "\<not> is_close (dedup_radius_px cfg) (kept ! i) (kept ! j)"
    using ij unfolding out by (simp add: sorted_wrt_iff_nth_less)
  then show ?thesis unfolding out by (simp add: is_close_def)
qed













text \<open>Claim C9 at three detections of one label, of which the third is merged.\<close>

theorem synthesize_no_close_pair_witness:
  "(0::nat) < 1
   \<and> 1 < length (detections (synthesize (\<lambda>xs. xs)
         [det_at ''LT04'' 0 0 ''LOW'' 2 None, det_at ''LT04'' 50 0 ''HIGH'' 2 None,
          det_at ''LT04'' 49 49 ''MEDIUM'' 2 None]
         default_config None))
   \<and> detections (synthesize (\<lambda>xs. xs)
         [det_at ''LT04'' 0 0 ''LOW'' 2 None, det_at ''LT04'' 50 0 ''HIGH'' 2 None,
          det_at ''LT04'' 49 49 ''MEDIUM'' 2 None]
         default_config None)
       = [det_at ''LT04'' 50 0 ''HIGH'' 2 None, det_at ''LT04'' 0 0 ''LOW'' 2 None]
   \<and> \<not> (\<bar>x (det_at ''LT04'' 50 0 ''HIGH'' 2 None) - x (det_at ''LT04'' 0 0 ''LOW'' 2 None)\<bar>
          < dedup_radius_px default_config)"
proof -
  let ?dets = "[det_at ''LT04'' 0 0 ''LOW'' 2 None, det_at ''LT04'' 50 0 ''HIGH'' 2 None,
                det_at ''LT04'' 49 49 ''MEDIUM'' 2 None]"
  have out: "detections (synthesize (\<lambda>xs. xs) ?dets default_config None)
       = [det_at ''LT04'' 50 0 ''HIGH'' 2 None, det_at ''LT04'' 0 0 ''LOW'' 2 None]"
    by (simp add: synthesize_def Let_def py_sorted_reverse_def dedup_key_def conf_rank_def
          CONF_RANK_def is_dup_def is_close_def det_at_def default_config_def less_eq_prod_def)
  have h1: "(0::nat) < 1" by simp
  have h2: "1 < length (detections (synthesize (\<lambda>xs. xs) ?dets default_config None))"
    by (simp add: out)
  from synthesize_no_close_pair[OF h1 h2, unfolded out]
  have "\<not> (\<bar>x (det_at ''LT04'' 50 0 ''HIGH'' 2 None) - x (det_at ''LT04'' 0 0 ''LOW'' 2 None)\<bar>
          < dedup_radius_px default_config)"
    by (simp add: det_at_def)
  with h1 h2 out show ?thesis by simp
qed

lemma inner_fold_set:
  "set (foldl (\<lambda>acc sn. if P sn then List.insert sn acc else acc) acc sns)
     = set acc \<union> {sn \<in> set sns. P sn}"
  by (induction sns arbitrary: acc) auto

lemma detected_fold_set:
  "set (foldl (\<lambda>acc d. foldl (\<lambda>acc sn. if Q sn d then List.insert sn acc else acc) acc sns) acc dets)
     = set acc \<union> {sn \<in> set sns. \<exists>d\<in>set dets. Q sn d}"
proof (induction dets arbitrary: acc)
  case Nil
  then show ?case by simp
next
  case (Cons d dets)
  show ?case by (simp add: Cons.IH inner_fold_set) blast
qed

lemma set_detected_suites_of:
  "set (detected_suites_of sns dets)
     = {sn \<in> set sns. \<exists>d\<in>set dets. is_substring (py_lower sn) (room_text d)}"
  unfolding detected_suites_of_def
  using detected_fold_set[of "\<lambda>sn d. is_substring (py_lower sn) (room_text d)" sns "[]" dets]
  by simp

lemma sort_distinct_set_unique:
  fixes xs ys :: "'a::linorder list"
  assumes "distinct xs" "distinct ys" "set xs = set ys"
  shows "sort xs = sort ys"
proof (rule sorted_distinct_set_unique)
  show "sorted (sort xs)" "sorted (sort ys)" by simp_all
  show "distinct (sort xs)" "distinct (sort ys)" using assms by simp_all
  show "set (sort xs) = set (sort ys)" using assms by simp
qed

lemma check_suite_coverage_canonical:
  assumes "is_set_order order"
  shows "check_suite_coverage order dets ctx cfg =
     (if uncovered_suites ctx dets = [] then []
      else [coverage_message (label_prefix cfg) (uncovered_suites ctx dets)])"
proof -
  let ?vals = "remdups (suite_number_values ctx)"
  let ?sns = "order ?vals"
  let ?det = "detected_suites_of ?sns dets"
  let ?P = "\<lambda>n. \<not> list_ex (\<lambda>d. is_substring (py_lower n) (room_text d)) dets"
  let ?missing = "order (filter (\<lambda>sn. sn \<notin> set ?det) ?sns)"
  have sns: "distinct ?sns" "set ?sns = set ?vals"
    using assms unfolding is_set_order_def by simp_all
  have filt: "filter (\<lambda>sn. sn \<notin> set ?det) ?sns = filter ?P ?sns"
    by (rule filter_cong) (auto simp: set_detected_suites_of list_ex_iff)
  have dm: "distinct (filter ?P ?sns)" using sns by simp
  have miss: "distinct ?missing" "set ?missing = set (filter ?P ?sns)"
    using assms dm unfolding is_set_order_def filt by simp_all
  have setm: "set ?missing = set (filter ?P ?vals)" using miss(2) sns(2) by auto
  have srt: "sort ?missing = uncovered_suites ctx dets"
    unfolding uncovered_suites_def
    by (rule sort_distinct_set_unique) (use miss(1) setm in simp_all)
  have sorted_unc: "sort (uncovered_suites ctx dets) = uncovered_suites ctx dets"
    unfolding uncovered_suites_def by (simp add: sort_key_id_if_sorted)
  have empty_iff: "?missing = [] \<longleftrightarrow> uncovered_suites ctx dets = []"
    by (metis srt set_sort set_empty)
  have msg: "coverage_message (label_prefix cfg) ?missing
             = coverage_message (label_prefix cfg) (uncovered_suites ctx dets)"
    by (simp add: coverage_message_def srt sorted_unc)
  show ?thesis
    unfolding check_suite_coverage_def suite_numbers_of_def Let_def
    using empty_iff msg by simp
qed

lemma synthesize_order_canonical:
  assumes "is_set_order order"
  shows "synthesize order dets cfg context = synthesize (\<lambda>xs. xs) dets cfg context"
proof -
  have id: "is_set_order (\<lambda>xs. xs)" by (simp add: is_set_order_def)
  show ?thesis
    unfolding synthesize_def Let_def
    by (simp add: check_suite_coverage_canonical[OF assms] check_suite_coverage_canonical[OF id]
          split: prod.splits option.splits)
qed

text \<open>
  Claim C5. \<open>synthesize\<close> is a function of the detection list, the configuration and
  the context: nothing in it reads a clock or a random source. The one thing that varies
  between two runs of the Python code on the same inputs is the order in which the sets
  of suite numbers are iterated, and the report does not depend on it: for any two
  iteration orders the reports are equal, in detection order, final counts, total,
  duplicates removed and warnings.
\<close>

theorem synthesize_deterministic:
  assumes "is_set_order order1" "is_set_order order2"
  shows "synthesize order1 dets cfg context = synthesize order2 dets cfg context"
  using synthesize_order_canonical[OF assms(1)] synthesize_order_canonical[OF assms(2)] by simp

lemmas synth_eval = synthesize_def Let_def py_sorted_reverse_def dedup_key_def conf_rank_def CONF_RANK_def
  is_dup_def is_close_def det_at_def default_config_def Counter_def less_eq_prod_def
  check_suite_coverage_def suite_numbers_of_def suite_number_values_def detected_suites_of_def
  room_text_def py_lower_def char_lower_def coverage_message_def example_context_def


text \<open>The theorem for the orders "as inserted" and "reversed", on a context with suites.\<close>

theorem synthesize_deterministic_witness:
  "is_set_order (\<lambda>xs. xs) \<and> is_set_order rev
   \<and> synthesize (\<lambda>xs. xs)
        [det_at ''LT04'' 0 0 ''HIGH'' 2 (Some ''Suite 101 kitchen''),
         det_at ''LT04'' 10 10 ''LOW'' 3 None]
        default_config (Some example_context)
     = synthesize rev
        [det_at ''LT04'' 0 0 ''HIGH'' 2 (Some ''Suite 101 kitchen''),
         det_at ''LT04'' 10 10 ''LOW'' 3 None]
        default_config (Some example_context)"
proof -
  have h1: "is_set_order (\<lambda>xs. xs)" by (simp add: is_set_order_def)
  have h2: "is_set_order rev" by (simp add: is_set_order_def)
  from synthesize_deterministic[OF h1 h2] h1 h2 show ?thesis by blast
qed

text \<open>
  Claim C6, as the code has it. When the context has suites and the detection list is not
  empty, \<open>synthesize\<close> emits at most one warning: none when every suite number occurs
  (in lower case) in the lower-cased room text of some kept detection, and otherwise a
  single warning that lists, sorted and separated by commas, all the suite numbers that
  occur in no kept detection's room text. The label of a detection plays no part.
\<close>

theorem suite_coverage_single_warning:
  assumes "is_set_order order" and "dets \<noteq> []" and "suites ctx \<noteq> []"
  shows "pattern_warnings (synthesize order dets cfg (Some ctx)) =
           (if uncovered_suites ctx (detections (synthesize order dets cfg (Some ctx))) = []
            then []
            else [''No '' @ label_prefix cfg @ '' fixtures detected in suites: ''
                  @ py_join '', '' (uncovered_suites ctx (detections (synthesize order dets cfg (Some ctx))))
                  @ ''. This may indicate missed detections.''])"
proof -
  obtain kept dups where run:
    "dedup_loop (dedup_radius_px cfg) (py_sorted_reverse dedup_key dets) [] 0 = (kept, dups)"
    by (cases "dedup_loop (dedup_radius_px cfg) (py_sorted_reverse dedup_key dets) [] 0")
  have out: "detections (synthesize order dets cfg (Some ctx)) = kept"
    by (simp add: synthesize_detections run)
  have w: "pattern_warnings (synthesize order dets cfg (Some ctx))
            = check_suite_coverage order kept ctx cfg"
    using assms(2,3) run by (simp add: synthesize_def Let_def)
  have sorted_unc: "sort (uncovered_suites ctx kept) = uncovered_suites ctx kept"
    unfolding uncovered_suites_def by (simp add: sort_key_id_if_sorted)
  show ?thesis
    unfolding out w check_suite_coverage_canonical[OF assms(1)]
    by (simp add: coverage_message_def sorted_unc)
qed

text \<open>The theorem on suites 103, 101, 102 and one detection in suite 101.\<close>

theorem suite_coverage_single_warning_witness:
  "is_set_order rev
   \<and> [det_at ''LT04'' 0 0 ''HIGH'' 2 (Some ''Suite 101 kitchen'')] \<noteq> []
   \<and> suites example_context \<noteq> []
   \<and> uncovered_suites example_context
        [det_at ''LT04'' 0 0 ''HIGH'' 2 (Some ''Suite 101 kitchen'')] = [''102'', ''103'']
   \<and> pattern_warnings (synthesize rev
        [det_at ''LT04'' 0 0 ''HIGH'' 2 (Some ''Suite 101 kitchen'')]
        default_config (Some example_context))
     = [''No LT fixtures detected in suites: 102, 103. This may indicate missed detections.'']"
proof -
  let ?d = "det_at ''LT04'' 0 0 ''HIGH'' 2 (Some ''Suite 101 kitchen'')"
  have h1: "is_set_order rev" by (simp add: is_set_order_def)
  have h2: "[?d] \<noteq> []" by simp
  have h3: "suites example_context \<noteq> []" by (simp add: example_context_def)
  have out: "detections (synthesize rev [?d] default_config (Some example_context)) = [?d]"
    by (simp add: synthesize_detections py_sorted_reverse_def is_dup_def)
  have unc: "uncovered_suites example_context [?d] = [''102'', ''103'']"
    by (simp add: uncovered_suites_def suite_number_values_def example_context_def
          room_text_def py_lower_def char_lower_def det_at_def)
  from suite_coverage_single_warning[OF h1 h2 h3, of default_config]
  have "pattern_warnings (synthesize rev [?d] default_config (Some example_context))
     = [''No LT fixtures detected in suites: 102, 103. This may indicate missed detections.'']"
    unfolding out unc by (simp add: default_config_def)
  with h1 h2 h3 unc show ?thesis by simp
qed

text \<open>
  Claim C6 as stated fails: with suites 102 and 103 both without a detection, the report
  has one warning, not one per suite.
\<close>

theorem suite_coverage_per_suite_counterexample:
  "uncovered_suites example_context [det_at ''LT04'' 0 0 ''HIGH'' 2 (Some ''Suite 101 kitchen'')]
     = [''102'', ''103'']
   \<and> length (pattern_warnings (synthesize (\<lambda>xs. xs)
        [det_at ''LT04'' 0 0 ''HIGH'' 2 (Some ''Suite 101 kitchen'')]
        default_config (Some example_context))) = 1
   \<and> pattern_warnings (synthesize (\<lambda>xs. xs)
        [det_at ''LT04'' 0 0 ''HIGH'' 2 (Some ''Suite 101 kitchen'')]
        default_config (Some example_context))
     = [''No LT fixtures detected in suites: 102, 103. This may indicate missed detections.'']"
  by (simp add: synth_eval uncovered_suites_def)

section \<open>Properties of the conversions and of the crop\<close>

lemma map_label_inspect_cell_convert:
  "map label (inspect_cell_convert cfg cell raws)
     = filter (re_match (label_pattern cfg)) (map normalized_label raws)"
  by (induction raws) (simp_all add: cell_detection_def Let_def split: prod.splits)

lemma map_label_crop_convert:
  "map label (crop_convert cfg coarse_size x_pct y_pct reason raws)
     = filter (re_match (label_pattern cfg)) (map normalized_label raws)"
  by (induction raws) (simp_all add: crop_detection_def Let_def)

lemma default_pattern_examples:
  "\<not> re_match (label_pattern default_config) (normalized_label (raw_with_label ''FS22''))"
  "re_match (label_pattern default_config) (normalized_label (raw_with_label ''lt04a''))"
  "normalized_label (raw_with_label ''lt04a'') = ''LT04A''"
  "normalized_label (raw_with_label ''FS22'') = ''FS22''"
  by (simp_all add: default_config_def default_label_pattern_def re_digit_def re_optional_def
        normalized_label_def raw_with_label_def get_or_def py_upper_def py_strip_def
        char_upper_def is_space_def)

text \<open>
  Claim C7. In the Phase 2 conversion of a cell's raw detections and in the Phase 3
  conversion of a crop's raw detections, the labels of the detections produced are exactly
  the normalized labels (upper-cased, then stripped) that \<open>re.match\<close> accepts for the
  configured pattern, in the order of the raw list: a raw detection whose normalized label
  does not match produces nothing. With the pattern \<open>LT\d{2,3}[A-Z]?\<close> the raw label
  FS22 is dropped and the raw label lt04a is kept with the label LT04A.
\<close>

theorem label_filter_both_phases:
  "map label (inspect_cell_convert cfg cell raws)
     = filter (re_match (label_pattern cfg)) (map normalized_label raws)
   \<and> map label (crop_convert cfg coarse_size x_pct y_pct reason raws)
     = filter (re_match (label_pattern cfg)) (map normalized_label raws)
   \<and> normalized_label (raw_with_label ''FS22'') = ''FS22''
   \<and> inspect_cell_convert default_config cell [raw_with_label ''FS22''] = []
   \<and> crop_convert default_config coarse_size x_pct y_pct reason [raw_with_label ''FS22''] = []
   \<and> map label (inspect_cell_convert default_config cell [raw_with_label ''lt04a'']) = [''LT04A'']
   \<and> map label (crop_convert default_config coarse_size x_pct y_pct reason
                    [raw_with_label ''lt04a'']) = [''LT04A'']"
proof -
  have a: "inspect_cell_convert default_config cell [raw_with_label ''FS22''] = []"
    using default_pattern_examples(1) by simp
  have b: "crop_convert default_config coarse_size x_pct y_pct reason [raw_with_label ''FS22''] = []"
    using default_pattern_examples(1) by simp
  have c: "map label (inspect_cell_convert default_config cell [raw_with_label ''lt04a'']) = [''LT04A'']"
    unfolding map_label_inspect_cell_convert using default_pattern_examples(2,3) by simp
  have d: "map label (crop_convert default_config coarse_size x_pct y_pct reason
                    [raw_with_label ''lt04a'']) = [''LT04A'']"
    unfolding map_label_crop_convert using default_pattern_examples(2,3) by simp
  show ?thesis
    using map_label_inspect_cell_convert map_label_crop_convert default_pattern_examples(4) a b c d
    by blast
qed

lemma py_int_mono: "a \<le> b \<Longrightarrow> py_int a \<le> py_int b"
proof -
  assume ab: "a \<le> b"
  have fm: "\<lfloor>a\<rfloor> \<le> \<lfloor>b\<rfloor>" using ab by (rule floor_mono)
  have cm: "\<lceil>a\<rceil> \<le> \<lceil>b\<rceil>" using ab by (rule ceiling_mono)
  show ?thesis
  proof (cases "0 \<le> a")
    case True
    then show ?thesis using ab fm by (simp add: py_int_def)
  next
    case a: False
    show ?thesis
    proof (cases "0 \<le> b")
      case True
      have "\<lceil>a\<rceil> \<le> 0" using a by simp
      moreover have "0 \<le> \<lfloor>b\<rfloor>" using True by simp
      ultimately have "\<lceil>a\<rceil> \<le> \<lfloor>b\<rfloor>" by linarith
      then show ?thesis using a True by (simp add: py_int_def)
    next
      case False
      then show ?thesis using a cm by (simp add: py_int_def)
    qed
  qed
qed

lemma py_int_nonneg: "0 \<le> q \<Longrightarrow> 0 \<le> py_int q"
  by (simp add: py_int_def)

lemma py_int_le: "q \<le> of_int n \<Longrightarrow> py_int q \<le> n"
  by (auto simp: py_int_def ceiling_le_iff floor_le_iff intro: order.strict_trans1)

lemma clamp_edges:
  fixes W :: int
  shows "0 \<le> max 0 (py_int lo)" "min W (py_int hi) \<le> W"
  by simp_all

lemma clamp_inside:
  fixes W :: int and c w :: rat
  assumes "0 \<le> W" "0 \<le> c" "c \<le> of_int W" "0 \<le> w"
  shows "max 0 (py_int (c - w / 2)) \<le> min W (py_int (c + w / 2))"
proof -
  have lo_le_W: "py_int (c - w / 2) \<le> W"
    using assms by (intro py_int_le) linarith
  have hi_nonneg: "0 \<le> py_int (c + w / 2)"
    using assms by (intro py_int_nonneg) simp
  have mono: "py_int (c - w / 2) \<le> py_int (c + w / 2)"
    using assms by (intro py_int_mono) linarith
  show ?thesis using lo_le_W hi_nonneg mono assms(1) by simp
qed

lemma pct_of_range:
  fixes W :: int and p :: rat
  assumes "0 \<le> W" "0 \<le> p" "p \<le> 100"
  shows "0 \<le> p / 100 * of_int W" "p / 100 * of_int W \<le> of_int W"
proof -
  have w: "(0::rat) \<le> of_int W" using assms by simp
  show "0 \<le> p / 100 * of_int W" using assms w by simp
  have "p / 100 \<le> 1" using assms by simp
  then have "p / 100 * of_int W \<le> 1 * of_int W" using w by (rule mult_right_mono)
  then show "p / 100 * of_int W \<le> of_int W" by simp
qed

text \<open>
  Claim C10, as the code has it. The width and height percentages that
  \<open>_tool_crop_and_inspect\<close> renders are the requested ones cut down to 50, so each is at
  most 50. The renderer clamps the left and top edge of the box from below at 0 and the
  right and bottom edge from above at the page width and height, and nothing more; the
  box lies within the page, with left \<open>\<le>\<close> right and top \<open>\<le>\<close> bottom, when the centre
  percentages are between 0 and 100 and the size percentages are not negative.
\<close>

theorem crop_clamped:
  assumes "crop_region params = (x_pct, y_pct, w_pct, h_pct)"
    and "crop_box (W, H) params = (bx1, by1, bx2, by2)"
  shows "w_pct = min (get_or (in_width_pct params) 25) 50
       \<and> h_pct = min (get_or (in_height_pct params) 25) 50
       \<and> w_pct \<le> 50 \<and> h_pct \<le> 50
       \<and> 0 \<le> bx1 \<and> 0 \<le> by1 \<and> bx2 \<le> W \<and> by2 \<le> H
       \<and> (0 \<le> W \<and> 0 \<le> H \<and> 0 \<le> x_pct \<and> x_pct \<le> 100 \<and> 0 \<le> y_pct \<and> y_pct \<le> 100
            \<and> 0 \<le> w_pct \<and> 0 \<le> h_pct
          \<longrightarrow> bx1 \<le> bx2 \<and> by1 \<le> by2)"
proof -
  have w: "w_pct = min (get_or (in_width_pct params) 25) 50"
    and h: "h_pct = min (get_or (in_height_pct params) 25) 50"
    using assms(1) by (simp_all add: crop_region_def Let_def)
  have box: "bx1 = max 0 (py_int (x_pct / 100 * of_int W - w_pct / 100 * of_int W / 2))"
            "by1 = max 0 (py_int (y_pct / 100 * of_int H - h_pct / 100 * of_int H / 2))"
            "bx2 = min W (py_int (x_pct / 100 * of_int W + w_pct / 100 * of_int W / 2))"
            "by2 = min H (py_int (y_pct / 100 * of_int H + h_pct / 100 * of_int H / 2))"
    using assms by (simp_all add: crop_box_def render_crop_box_def Let_def)
  have inside: "bx1 \<le> bx2 \<and> by1 \<le> by2"
    if r: "0 \<le> W \<and> 0 \<le> H \<and> 0 \<le> x_pct \<and> x_pct \<le> 100 \<and> 0 \<le> y_pct \<and> y_pct \<le> 100
            \<and> 0 \<le> w_pct \<and> 0 \<le> h_pct"
  proof -
    have cw: "0 \<le> w_pct / 100 * of_int W" "0 \<le> h_pct / 100 * of_int H" using r by simp_all
    have "bx1 \<le> bx2" unfolding box
      using r cw(1) pct_of_range[of W x_pct] by (intro clamp_inside) simp_all
    moreover have "by1 \<le> by2" unfolding box
      using r cw(2) pct_of_range[of H y_pct] by (intro clamp_inside) simp_all
    ultimately show ?thesis by simp
  qed
  show ?thesis
    using w h inside by (simp add: box)
qed

text \<open>The theorem for a crop of the requested size 80 x 25 at the centre of a 100 x 100 page.\<close>

theorem crop_clamped_witness:
  "crop_region (crop_input 50 50 80 25) = (50, 50, 50, 25)
   \<and> crop_box (100, 100) (crop_input 50 50 80 25) = (25, 37, 75, 62)
   \<and> (50::rat) \<le> 50 \<and> (25::int) \<le> 75 \<and> (37::int) \<le> 62"
proof -
  have r: "crop_region (crop_input 50 50 80 25) = (50, 50, 50, 25)"
    by (simp add: crop_region_def crop_input_def get_or_def)
  have b: "crop_box (100, 100) (crop_input 50 50 80 25) = (25, 37, 75, 62)"
    by (simp add: crop_box_def r render_crop_box_def py_int_def floor_eq_iff)
  from crop_clamped[OF r b] r b show ?thesis by simp
qed

text \<open>
  Claim C10 as stated fails: for a centre at 200 percent of the width of a 100 x 100
  page, the left edge of the box is 175, outside the page (and right of the right edge).
  The values 200/100*100, 50/100*100 and 175.0 are exact in binary floating point too.
\<close>

theorem crop_box_outside_page_counterexample:
  "crop_region (crop_input 200 50 80 25) = (200, 50, 50, 25)
   \<and> crop_box (100, 100) (crop_input 200 50 80 25) = (175, 37, 100, 62)
   \<and> \<not> (175::int) \<le> 100"
  by (simp add: crop_box_def crop_region_def crop_input_def get_or_def render_crop_box_def py_int_def floor_eq_iff)

section \<open>Properties of the agent loop\<close>

lemmas agent_eval = run_def new_orchestrator_def two_crops_world_def default_config_def py_range_def
  Let_def execute_tool_def tool_crop_and_inspect_def crop_region_def crop_input_def get_or_def
  phase3_result_def PhaseResult.make_def upt_rec

text \<open>
  Claim C1 does not hold of the code. The budget is looked at only at the head of an
  iteration; the tool calls of one answer are all executed. With
  \<open>max_vlm_calls_phase3 = 1\<close> and a first answer that holds two \<open>crop_and_inspect\<close>
  tool calls, \<open>run\<close> makes two inspections and returns \<open>vlm_calls = 2\<close>.
\<close>

theorem run_exceeds_budget:
  "max_vlm_calls_phase3 (default_config\<lparr>max_vlm_calls_phase3 := 1\<rparr>) = 1
   \<and> PhaseResult.vlm_calls (run two_crops_world (default_config\<lparr>max_vlm_calls_phase3 := 1\<rparr>) []) = 2
   \<and> length (PhaseResult.detections
         (run two_crops_world (default_config\<lparr>max_vlm_calls_phase3 := 1\<rparr>) [])) = 2"
  by (simp add: agent_eval default_label_pattern_def re_digit_def re_optional_def
        normalized_label_def raw_with_label_def py_upper_def py_strip_def char_upper_def is_space_def
        crop_detection_def)


lemma execute_tool_calls:
  "execute_tool world cfg name inp self = (self', dets) \<Longrightarrow>
   AgentOrchestrator.vlm_calls self' \<le> AgentOrchestrator.vlm_calls self + 1
   \<and> AgentOrchestrator.vlm_calls self \<le> AgentOrchestrator.vlm_calls self'"
  by (auto simp: execute_tool_def tool_crop_and_inspect_def Let_def split: if_splits prod.splits)

lemma exec_tools_calls:
  "exec_tools world cfg i tus self new = res \<Longrightarrow>
   (case res of
      Inl ph \<Rightarrow> PhaseResult.vlm_calls ph \<le> AgentOrchestrator.vlm_calls self + int (length tus)
    | Inr (self', new') \<Rightarrow>
        AgentOrchestrator.vlm_calls self' \<le> AgentOrchestrator.vlm_calls self + int (length tus))"
proof (induction tus arbitrary: self new res)
  case Nil
  then show ?case by auto
next
  case (Cons tu tus)
  obtain tid tname tin where tu: "tu = (tid, tname, tin)" by (cases tu)
  let ?logged = "self\<lparr>agent_log := agent_log self @ [ToolCall i tname tin]\<rparr>"
  show ?case
  proof (cases "tname = ''finalize''")
    case True
    then show ?thesis using Cons.prems
      by (auto simp: tu Let_def phase3_result_def PhaseResult.make_def)
  next
    case False
    obtain self' dets where ex: "execute_tool world cfg tname tin ?logged = (self', dets)"
      by (cases "execute_tool world cfg tname tin ?logged")
    have step: "AgentOrchestrator.vlm_calls self' \<le> AgentOrchestrator.vlm_calls self + 1"
      using execute_tool_calls[OF ex] by simp
    let ?next = "self'\<lparr>AgentOrchestrator.detections := AgentOrchestrator.detections self' @ dets\<rparr>"
    have res: "exec_tools world cfg i tus ?next (new @ dets) = res"
      using Cons.prems False ex by (simp add: tu Let_def)
    from Cons.IH[OF res] step show ?thesis
      by (auto split: sum.splits prod.splits)
  qed
qed

lemma run_loop_bound:
  assumes turns: "\<And>i content stop. respond world i = Response content stop \<Longrightarrow>
                    int (length (tool_uses_of content)) \<le> K"
  shows "PhaseResult.vlm_calls (run_loop world cfg iters self new)
           \<le> max (AgentOrchestrator.vlm_calls self) (max_vlm_calls_phase3 cfg - 1 + K)"
proof (induction iters arbitrary: self new)
  case Nil
  then show ?case by (simp add: phase3_result_def PhaseResult.make_def)
next
  case (Cons i rest)
  let ?N = "max_vlm_calls_phase3 cfg"
  let ?v = "AgentOrchestrator.vlm_calls self"
  show ?case
  proof (cases "?N - ?v \<le> 0")
    case True
    then show ?thesis by (simp add: phase3_result_def PhaseResult.make_def)
  next
    case budget: False
    then have v: "?v \<le> ?N - 1" by simp
    show ?thesis
    proof (cases "respond world (nat i)")
      case (ApiError e)
      then show ?thesis using budget by (simp add: phase3_result_def PhaseResult.make_def)
    next
      case (Response content stop)
      have k: "int (length (tool_uses_of content)) \<le> K" using turns[OF Response] .
      show ?thesis
      proof (cases "tool_uses_of content = []")
        case True
        then show ?thesis
          using budget Response Cons.IH[of self new]
          by (simp add: phase3_result_def PhaseResult.make_def)
      next
        case False
        show ?thesis
        proof (cases "exec_tools world cfg i (tool_uses_of content) self new")
          case (Inl ph)
          from exec_tools_calls[OF Inl] have "PhaseResult.vlm_calls ph \<le> ?v + int (length (tool_uses_of content))"
            by simp
          with v k have "PhaseResult.vlm_calls ph \<le> ?N - 1 + K" by linarith
          then show ?thesis using budget Response False Inl by (simp add: Let_def)
        next
          case (Inr p)
          obtain self' new' where p: "p = (self', new')" by (cases p)
          from exec_tools_calls[OF Inr] have "AgentOrchestrator.vlm_calls self' \<le> ?v + int (length (tool_uses_of content))"
            by (simp add: p)
          with v k have b: "AgentOrchestrator.vlm_calls self' \<le> ?N - 1 + K" by linarith
          have "PhaseResult.vlm_calls (run_loop world cfg rest self' new')
                  \<le> max (AgentOrchestrator.vlm_calls self') (?N - 1 + K)"
            by (rule Cons.IH)
          with b have "PhaseResult.vlm_calls (run_loop world cfg rest self' new') \<le> ?N - 1 + K"
            by simp
          then show ?thesis using budget Response False Inr p by (simp add: Let_def)
        qed
      qed
    qed
  qed
qed

text \<open>
  What the loop does guarantee: if no answer of the model holds more than \<open>K \<ge> 1\<close>
  tool calls, \<open>run\<close> makes at most \<open>max_vlm_calls_phase3 - 1 + K\<close> inspections (none
  when the budget is not positive). With one tool call per answer the budget is kept.
\<close>

theorem run_budget_bound:
  assumes "\<forall>i content stop. respond world i = Response content stop \<longrightarrow>
             int (length (tool_uses_of content)) \<le> K"
    and "1 \<le> K"
  shows "PhaseResult.vlm_calls (run world cfg coarse_detections)
           \<le> max 0 (max_vlm_calls_phase3 cfg - 1 + K)"
proof (cases "max_vlm_calls_phase3 cfg \<le> 0")
  case True
  then show ?thesis by (simp add: run_def PhaseResult.make_def)
next
  case False
  have turns: "\<And>i content stop. respond world i = Response content stop \<Longrightarrow>
                 int (length (tool_uses_of content)) \<le> K"
    using assms(1) by blast
  have "PhaseResult.vlm_calls (run_loop world cfg (py_range (max_agent_iterations cfg))
            (new_orchestrator coarse_detections) [])
          \<le> max (AgentOrchestrator.vlm_calls (new_orchestrator coarse_detections))
                 (max_vlm_calls_phase3 cfg - 1 + K)"
    using turns by (rule run_loop_bound)
  then show ?thesis using False assms(2) by (simp add: run_def new_orchestrator_def)
qed

text \<open>The bound for a model that asks for one crop per answer, with a budget of 2.\<close>

theorem run_budget_bound_witness:
  "(1::int) \<le> 1
   \<and> PhaseResult.vlm_calls (run one_crop_world (default_config\<lparr>max_vlm_calls_phase3 := 2\<rparr>) []) = 2
   \<and> PhaseResult.vlm_calls (run one_crop_world (default_config\<lparr>max_vlm_calls_phase3 := 2\<rparr>) [])
       \<le> max 0 (max_vlm_calls_phase3 (default_config\<lparr>max_vlm_calls_phase3 := 2\<rparr>) - 1 + 1)"
proof -
  have t: "\<forall>i content stop. respond one_crop_world i = Response content stop \<longrightarrow>
             int (length (tool_uses_of content)) \<le> 1"
    by (auto simp: one_crop_world_def)
  have k: "(1::int) \<le> 1" by simp
  have v: "PhaseResult.vlm_calls (run one_crop_world (default_config\<lparr>max_vlm_calls_phase3 := 2\<rparr>) []) = 2"
    by (simp add: agent_eval one_crop_world_def default_label_pattern_def re_digit_def re_optional_def
        normalized_label_def raw_with_label_def py_upper_def py_strip_def char_upper_def is_space_def
        crop_detection_def)
  from run_budget_bound[OF t k, of "default_config\<lparr>max_vlm_calls_phase3 := 2\<rparr>" "[]"] k v
  show ?thesis by blast
qed

section \<open>Properties of the context extraction\<close>

lemma split_from_nonempty: "split_from sep acc s \<noteq> []"
  by (induction sep acc s rule: split_from.induct) auto

lemma split_from_two_pieces:
  "sep \<noteq> [] \<Longrightarrow> is_substring sep s \<Longrightarrow> 2 \<le> length (split_from sep acc s)"
proof (induction s arbitrary: acc)
  case Nil
  then show ?case by simp
next
  case (Cons c cs)
  show ?case
  proof (cases "starts_with (c # cs) sep")
    case True
    have "1 \<le> length (split_from sep [] (drop (length sep - 1) cs))"
      using split_from_nonempty[of sep "[]" "drop (length sep - 1) cs"]
      by (cases "split_from sep [] (drop (length sep - 1) cs)") simp_all
    then show ?thesis using True Cons.prems(1) by simp
  next
    case False
    then have "is_substring sep cs" using Cons.prems(2) by simp
    from Cons.IH[OF Cons.prems(1) this, of "c # acc"] show ?thesis using False by simp
  qed
qed

lemma py_split_two_pieces:
  "sep \<noteq> [] \<Longrightarrow> is_substring sep s \<Longrightarrow> 2 \<le> length (py_split sep s)"
  unfolding py_split_def by (rule split_from_two_pieces)


lemma extract_context_call_failed:
  "extract_context loads (CallFailed e)
     = Inr (default_context, PhaseResult.make 1 [] 0 None (Some e))"
  by (simp add: extract_context_def try_extract_def default_context_def)

lemma extract_context_no_text:
  "extract_context loads (NoText e)
     = Inr (default_context, PhaseResult.make 1 [] 1 None (Some e))"
  by (simp add: extract_context_def try_extract_def default_context_def)

lemma extract_context_unparseable:
  "parse_json loads text = JNull \<Longrightarrow>
   extract_context loads (Answered text)
     = Inr (default_context, PhaseResult.make 1 [] 1 (Some default_context) None)"
  by (simp add: extract_context_def try_extract_def default_context_def)

lemmas context_eval = extract_context_def try_extract_def parse_json_def strip_fences_def
  loads_example_def suites_null_text_def fence_def py_strip_def is_space_def brace_span_def
  field_of_def default_context_def PhaseResult.make_def Let_def

text \<open>
  Claim C8 does not hold of the code. An exception inside the \<open>try\<close> statement is
  caught, and a failed call or an answer that does not parse gives the default context.
  But the log line after the \<open>try\<close> statement takes \<open>len(context.suites)\<close>: for the
  answer \<open>{"suites": null}\<close>, which parses, \<open>from_dict\<close> stores \<open>None\<close> in
  \<open>suites\<close>, and \<open>extract_context\<close> raises TypeError instead of returning.
\<close>

theorem extract_context_raises_on_null_suites:
  "loads_example suites_null_text = Some (JObj [(''suites'', JNull)])
   \<and> extract_context loads_example (Answered suites_null_text) = Inl TypeError
   \<and> extract_context loads_example (CallFailed ''timeout'')
       = Inr (default_context, \<lparr>phase = 1, PhaseResult.detections = [], PhaseResult.vlm_calls = 0,
                                metadata = None, error = Some ''timeout''\<rparr>)
   \<and> extract_context loads_example (Answered ''no json here'')
       = Inr (default_context, \<lparr>phase = 1, PhaseResult.detections = [], PhaseResult.vlm_calls = 1,
                                metadata = Some default_context, error = None\<rparr>)"
  by (simp add: context_eval)

end
